theory Spec2Isabelle
  imports Main "HOL-Library.AList"
begin

section \<open>Data model\<close>

text \<open>
  The embedded source is
  \<^verbatim>\<open>semantic_kernel/connectors/ai/chat_completion_client_base.py\<close>:
  the class \<^verbatim>\<open>ChatCompletionClientBase\<close> with its default method
  \<^verbatim>\<open>get_chat_message_content_class\<close> and the helper
  \<^verbatim>\<open>_prepare_chat_history_for_request\<close>.
\<close>

text \<open>\<^verbatim>\<open>ChatRole\<close>: the closed set of roles a message can carry.\<close>

datatype ChatRole = SYSTEM | USER | ASSISTANT | TOOL

text \<open>
  Python values that can occur in a dumped record or inside a metadata mapping.
  \<open>VNone\<close> is Python's \<^verbatim>\<open>None\<close>; \<open>VDict\<close> is a dict in insertion order;
  \<open>VOpaque\<close> stands for a provider-native payload that the code never inspects.
\<close>

datatype pyval =
    VNone
  | VStr string
  | VInt int
  | VRole ChatRole
  | VDict "(string \<times> pyval) list"
  | VOpaque nat

type_synonym pydict = "(string \<times> pyval) list"

text \<open>
  Python exceptions. The source raises \<^verbatim>\<open>KeyError\<close> from a subscript on a dict;
  the other two arise only in the object-level model below, when an address does not hold
  an object of the expected kind.
\<close>

datatype error = KeyError string | AttributeError string | TypeError

text \<open>
  Modelled from the spec: the class \<^verbatim>\<open>ChatMessageContent\<close> is imported by the
  source file but declared elsewhere. Its attributes are those of the spec's ChatMessage
  (section 3), under the Python names the source uses in its exclusion lists:
  \<open>role\<close> (required), and the optional \<open>content\<close>, \<open>ai_model_id\<close>,
  \<open>inner_content\<close>, \<open>encoding\<close>, \<open>choice_index\<close> and \<open>metadata\<close>.
  An absent optional attribute is \<open>None\<close>; \<open>inner_content\<close> is an arbitrary
  Python value, absent when it is \<open>VNone\<close>.
\<close>

record ChatMessageContent =
  role :: ChatRole
  content :: "string option"
  ai_model_id :: "string option"
  inner_content :: pyval
  encoding :: "string option"
  choice_index :: "int option"
  metadata :: "pydict option"

text \<open>\<^verbatim>\<open>ChatHistory\<close>: the ordered list of messages read by the source.\<close>

record ChatHistory =
  messages :: "ChatMessageContent list"

text \<open>
  Modelled from the spec: \<^verbatim>\<open>AIServiceClientBase\<close>, the base of the client class,
  holds only the model id and the service id (section 4.2 and 5).
\<close>

record ChatCompletionClientBase =
  client_ai_model_id :: string
  client_service_id :: string

text \<open>The message classes a client can announce as its response type.\<close>

datatype content_class = ChatMessageContent_class | StreamingChatMessageContent_class

section \<open>Operations\<close>

text \<open>An optional attribute as a Python value: \<^verbatim>\<open>None\<close> when absent.\<close>

fun opt :: "('a \<Rightarrow> pyval) \<Rightarrow> 'a option \<Rightarrow> pyval" where
  "opt f None = VNone"
| "opt f (Some x) = f x"

text \<open>The attributes of a message, by name, in the order of the spec's data model.\<close>

definition model_fields :: "ChatMessageContent \<Rightarrow> pydict" where
  "model_fields m =
     [(''role'', VRole (role m)),
      (''content'', opt VStr (content m)),
      (''ai_model_id'', opt VStr (ai_model_id m)),
      (''inner_content'', inner_content m),
      (''encoding'', opt VStr (encoding m)),
      (''choice_index'', opt VInt (choice_index m)),
      (''metadata'', opt VDict (metadata m))]"

text \<open>
  Modelled from the spec: \<^verbatim>\<open>model_dump(exclude_none=..., exclude=[...])\<close>, the
  dump of a message into a fresh dict (section 4.1: the non-null-field dump, without the
  excluded attributes). Attributes named in \<open>exclude\<close> are dropped whatever
  their value; with \<open>exclude_none\<close> the attributes whose value is \<^verbatim>\<open>None\<close>
  are dropped too. Values are dumped as they are.
\<close>

definition model_dump :: "bool \<Rightarrow> string list \<Rightarrow> ChatMessageContent \<Rightarrow> pydict" where
  "model_dump exclude_none exclude m =
     filter (\<lambda>(k, v). k \<notin> set exclude \<and> (exclude_none \<longrightarrow> v \<noteq> VNone)) (model_fields m)"

text \<open>\<^verbatim>\<open>d[k]\<close> on a dict: raises \<^verbatim>\<open>KeyError\<close> when the key is missing.\<close>

definition getitem :: "pydict \<Rightarrow> string \<Rightarrow> error + pyval" where
  "getitem d k = (case map_of d k of None \<Rightarrow> Inl (KeyError k) | Some v \<Rightarrow> Inr v)"

text \<open>\<^verbatim>\<open>k in d\<close> on a dict.\<close>

definition contains :: "string \<Rightarrow> pydict \<Rightarrow> bool" where
  "contains k d = (map_of d k \<noteq> None)"

text \<open>
  \<^verbatim>\<open>d[k] = v\<close>: an existing key keeps its position, a new key goes to the end.
\<close>

definition setitem :: "pydict \<Rightarrow> string \<Rightarrow> pyval \<Rightarrow> pydict" where
  "setitem d k v = AList.update k v d"

text \<open>\<^verbatim>\<open>d.pop(k, None)\<close>, for its effect on the dict: never raises.\<close>

definition pop :: "pydict \<Rightarrow> string \<Rightarrow> pydict" where
  "pop d k = AList.delete k d"

text \<open>
  The body of the loop of \<^verbatim>\<open>_prepare_chat_history_for_request\<close> for one
  message (source lines 84 to 93): the record appended for it, or the exception raised.
  The attribute \<open>metadata\<close> is declared as a mapping, so \<^verbatim>\<open>dump["metadata"]\<close>
  is a dict whenever the key is there (lemma \<open>model_dump_metadata\<close> below); the last
  case covers the absent key.
\<close>

definition prepare_message :: "ChatMessageContent \<Rightarrow> error + pydict" where
  "prepare_message message =
     (if role message = TOOL then
        (let dump = model_dump True [''encoding''] message in
         case map_of dump ''metadata'' of
           Some (VDict md) \<Rightarrow>
             if contains ''tool_call_id'' md then
               (case getitem md ''tool_call_id'' of
                  Inl e \<Rightarrow> Inl e
                | Inr tid \<Rightarrow>
                    let dump1 = setitem dump ''tool_call_id'' tid in
                    (case getitem md ''function_name'' of
                       Inl e \<Rightarrow> Inl e
                     | Inr fname \<Rightarrow>
                         let dump2 = setitem dump1 ''name'' fname in
                         Inr (pop dump2 ''metadata'')))
             else Inr dump
         | _ \<Rightarrow> Inr dump)
      else
        Inr (model_dump True
               [''metadata'', ''encoding'', ''ai_model_id'', ''inner_content'', ''choice_index'']
               message))"

text \<open>
  The loop itself (source lines 82, 83, 94 and 95): \<open>prepared\<close> is the list
  \<^verbatim>\<open>prepared_messages\<close> built so far; an exception ends the loop.
\<close>

fun prepare_loop :: "ChatMessageContent list \<Rightarrow> pydict list \<Rightarrow> error + pydict list" where
  "prepare_loop [] prepared = Inr prepared"
| "prepare_loop (message # rest) prepared =
     (case prepare_message message of
        Inl e \<Rightarrow> Inl e
      | Inr dump \<Rightarrow> prepare_loop rest (prepared @ [dump]))"

text \<open>\<^verbatim>\<open>_prepare_chat_history_for_request(self, chat_history)\<close>.\<close>

definition prepare_chat_history_for_request ::
  "ChatCompletionClientBase \<Rightarrow> ChatHistory \<Rightarrow> error + pydict list" where
  "prepare_chat_history_for_request self chat_history =
     prepare_loop (messages chat_history) []"

text \<open>
  The messages on which the loop body raises. A Tool message whose metadata has the key
  \<open>tool_call_id\<close> passes the check of line 86; line 88 then reads
  \<^verbatim>\<open>dump["metadata"]["function_name"]\<close> with no check, so without that key the read
  raises \<^verbatim>\<open>KeyError\<close>. No other statement of the function can raise on a message.
\<close>

definition missing_function_name :: "ChatMessageContent \<Rightarrow> bool" where
  "missing_function_name m =
     (role m = TOOL \<and>
      (case metadata m of
         None \<Rightarrow> False
       | Some md \<Rightarrow> contains ''tool_call_id'' md \<and> \<not> contains ''function_name'' md))"

text \<open>\<^verbatim>\<open>get_chat_message_content_class(self)\<close> (source lines 17 to 19).\<close>

definition get_chat_message_content_class :: "ChatCompletionClientBase \<Rightarrow> content_class" where
  "get_chat_message_content_class self = ChatMessageContent_class"

section \<open>Example inputs\<close>

text \<open>
  A message with the given role, content and metadata, every other optional attribute
  absent; a client; and the inputs the examples below run on.
\<close>

definition mk_message :: "ChatRole \<Rightarrow> string option \<Rightarrow> pydict option \<Rightarrow> ChatMessageContent" where
  "mk_message r c md =
     \<lparr>role = r, content = c, ai_model_id = None, inner_content = VNone, encoding = None,
      choice_index = None, metadata = md\<rparr>"

definition a_client :: ChatCompletionClientBase where
  "a_client = \<lparr>client_ai_model_id = ''model'', client_service_id = ''service''\<rparr>"

definition other_client :: ChatCompletionClientBase where
  "other_client = \<lparr>client_ai_model_id = ''another model'', client_service_id = ''x''\<rparr>"

definition user_message_all_set :: ChatMessageContent where
  "user_message_all_set =
     \<lparr>role = USER, content = None, ai_model_id = Some ''gpt'', inner_content = VOpaque 7,
      encoding = Some ''utf-8'', choice_index = Some 0,
      metadata = Some [(''tool_call_id'', VStr ''abc'')]\<rparr>"

definition three_turns :: ChatHistory where
  "three_turns =
     \<lparr>messages = [mk_message SYSTEM (Some ''be terse'') None,
                  mk_message USER (Some ''2+2?'') None,
                  mk_message ASSISTANT (Some ''4'') None]\<rparr>"

text \<open>
  Histories of more than one message: a question with the answer of a tool, the same with
  the key \<open>function_name\<close> missing from the metadata of the answer, a System message
  followed by the User message above, and two Tool messages without a
  \<open>tool_call_id\<close> after a question.
\<close>

definition question_and_answer :: ChatHistory where
  "question_and_answer =
     \<lparr>messages = [mk_message USER (Some ''run f'') None,
                  mk_message TOOL (Some ''ok'')
                    (Some [(''tool_call_id'', VStr ''abc''), (''function_name'', VStr ''f'')])]\<rparr>"

definition question_and_bad_answer :: ChatHistory where
  "question_and_bad_answer =
     \<lparr>messages = [mk_message USER (Some ''run f'') None,
                  mk_message TOOL (Some ''ok'') (Some [(''tool_call_id'', VStr ''abc'')])]\<rparr>"

definition system_then_user :: ChatHistory where
  "system_then_user =
     \<lparr>messages = [mk_message SYSTEM (Some ''be terse'') None, user_message_all_set]\<rparr>"

definition tools_without_id :: ChatHistory where
  "tools_without_id =
     \<lparr>messages = [mk_message USER (Some ''add 40 and 2'') None,
                  mk_message TOOL (Some ''42'') None,
                  mk_message TOOL (Some ''42'') (Some [(''function_name'', VStr ''add'')])]\<rparr>"

section \<open>The same function on objects in a store\<close>

text \<open>
  The definitions above treat messages and dicts as values. Whether the source changes its
  input is a question about objects: \<^verbatim>\<open>dump["tool_call_id"] = ...\<close>,
  \<^verbatim>\<open>dump.pop("metadata", None)\<close> and \<^verbatim>\<open>prepared_messages.append(dump)\<close> write
  to objects, and a write through one reference is seen through every other reference to
  the same object. This section follows the source statement by statement on a store.

  The store is the list of all objects; an address is an index into it, and a new object
  is put at the end, so its address is the length of the store before.
\<close>

type_synonym addr = nat

text \<open>What a slot of an object holds: an immutable value, or a reference to an object.\<close>

datatype hval = Imm pyval | Ref addr

text \<open>
  Objects: a dict, a list, and an instance of a class with its attributes (the chat
  history, a message, the client).
\<close>

datatype obj =
    DictObj "(string \<times> hval) list"
  | ListObj "hval list"
  | InstanceObj "(string \<times> hval) list"

type_synonym store = "obj list"

text \<open>A statement run on a store: the store after it, and its value or the exception.\<close>

type_synonym 'a run = "store \<times> (error + 'a)"

definition lookup :: "store \<Rightarrow> addr \<Rightarrow> obj option" where
  "lookup s a = (if a < length s then Some (s ! a) else None)"

definition alloc :: "store \<Rightarrow> obj \<Rightarrow> addr run" where
  "alloc s ob = (s @ [ob], Inr (length s))"

text \<open>One statement after another: an exception ends the sequence.\<close>

definition then_do :: "'a run \<Rightarrow> (store \<Rightarrow> 'a \<Rightarrow> 'b run) \<Rightarrow> 'b run" where
  "then_do r f = (case r of (s, Inl e) \<Rightarrow> (s, Inl e) | (s, Inr x) \<Rightarrow> f s x)"

text \<open>\<^verbatim>\<open>obj.name\<close>: reading an attribute of an instance.\<close>

definition h_getattr :: "store \<Rightarrow> addr \<Rightarrow> string \<Rightarrow> hval run" where
  "h_getattr s a name =
     (case lookup s a of
        Some (InstanceObj attrs) \<Rightarrow>
          (case map_of attrs name of
             None \<Rightarrow> (s, Inl (AttributeError name))
           | Some v \<Rightarrow> (s, Inr v))
      | _ \<Rightarrow> (s, Inl (AttributeError name)))"

text \<open>\<^verbatim>\<open>k in d\<close>, for \<open>d\<close> a reference to a dict object or an immutable dict value.\<close>

definition h_contains :: "store \<Rightarrow> hval \<Rightarrow> string \<Rightarrow> bool run" where
  "h_contains s d k =
     (case d of
        Ref a \<Rightarrow>
          (case lookup s a of
             Some (DictObj al) \<Rightarrow> (s, Inr (map_of al k \<noteq> None))
           | _ \<Rightarrow> (s, Inl TypeError))
      | Imm (VDict al) \<Rightarrow> (s, Inr (map_of al k \<noteq> None))
      | _ \<Rightarrow> (s, Inl TypeError))"

text \<open>\<^verbatim>\<open>d[k]\<close>.\<close>

definition h_getitem :: "store \<Rightarrow> hval \<Rightarrow> string \<Rightarrow> hval run" where
  "h_getitem s d k =
     (case d of
        Ref a \<Rightarrow>
          (case lookup s a of
             Some (DictObj al) \<Rightarrow>
               (case map_of al k of None \<Rightarrow> (s, Inl (KeyError k)) | Some v \<Rightarrow> (s, Inr v))
           | _ \<Rightarrow> (s, Inl TypeError))
      | Imm (VDict al) \<Rightarrow>
          (case map_of al k of None \<Rightarrow> (s, Inl (KeyError k)) | Some v \<Rightarrow> (s, Inr (Imm v)))
      | _ \<Rightarrow> (s, Inl TypeError))"

text \<open>\<^verbatim>\<open>d[k] = v\<close>: a write to the dict object at address \<open>a\<close>.\<close>

definition h_setitem :: "store \<Rightarrow> addr \<Rightarrow> string \<Rightarrow> hval \<Rightarrow> unit run" where
  "h_setitem s a k v =
     (case lookup s a of
        Some (DictObj al) \<Rightarrow> (s[a := DictObj (AList.update k v al)], Inr ())
      | _ \<Rightarrow> (s, Inl TypeError))"

text \<open>\<^verbatim>\<open>d.pop(k, None)\<close>: a write to the dict object at address \<open>a\<close>.\<close>

definition h_pop :: "store \<Rightarrow> addr \<Rightarrow> string \<Rightarrow> unit run" where
  "h_pop s a k =
     (case lookup s a of
        Some (DictObj al) \<Rightarrow> (s[a := DictObj (AList.delete k al)], Inr ())
      | _ \<Rightarrow> (s, Inl TypeError))"

text \<open>\<^verbatim>\<open>xs.append(v)\<close>: a write to the list object at address \<open>a\<close>.\<close>

definition h_append :: "store \<Rightarrow> addr \<Rightarrow> hval \<Rightarrow> unit run" where
  "h_append s a v =
     (case lookup s a of
        Some (ListObj xs) \<Rightarrow> (s[a := ListObj (xs @ [v])], Inr ())
      | _ \<Rightarrow> (s, Inl (AttributeError ''append'')))"

text \<open>
  The values of a dump. \<^verbatim>\<open>model_dump\<close> belongs to a library outside the sources, so
  both behaviours are modelled: with \<open>share\<close> a referenced object (the metadata dict) is
  put into the dump by reference, so that the dump and the message share it; without, a
  copy of the object is allocated and the dump refers to the copy.
\<close>

fun dump_values :: "bool \<Rightarrow> store \<Rightarrow> (string \<times> hval) list \<Rightarrow> store \<times> (string \<times> hval) list" where
  "dump_values share s [] = (s, [])"
| "dump_values share s ((k, v) # rest) =
     (let (s1, v1) =
        (case v of
           Imm x \<Rightarrow> (s, Imm x)
         | Ref a \<Rightarrow>
             if share then (s, Ref a)
             else (case lookup s a of
                     None \<Rightarrow> (s, Ref a)
                   | Some ob \<Rightarrow> (s @ [ob], Ref (length s))));
          (s2, rest') = dump_values share s1 rest
      in (s2, (k, v1) # rest'))"

text \<open>
  \<^verbatim>\<open>message.model_dump(exclude_none=..., exclude=[...])\<close> on the message at address
  \<open>a\<close>: the dump is a new dict object, and its address is the value.
\<close>

definition h_model_dump :: "bool \<Rightarrow> bool \<Rightarrow> string list \<Rightarrow> store \<Rightarrow> addr \<Rightarrow> addr run" where
  "h_model_dump share exclude_none exclude s a =
     (case lookup s a of
        Some (InstanceObj attrs) \<Rightarrow>
          (let kept_attrs =
                 filter (\<lambda>(k, v). k \<notin> set exclude \<and> (exclude_none \<longrightarrow> v \<noteq> Imm VNone)) attrs;
               (s1, al) = dump_values share s kept_attrs
           in alloc s1 (DictObj al))
      | _ \<Rightarrow> (s, Inl (AttributeError ''model_dump'')))"

text \<open>Source lines 87 to 89, on the dump at address \<open>dump\<close>.\<close>

definition h_promote_write :: "store \<Rightarrow> addr \<Rightarrow> addr run" where
  "h_promote_write s dump =
     then_do (h_getitem s (Ref dump) ''metadata'') (\<lambda>s1 md1.
     then_do (h_getitem s1 md1 ''tool_call_id'') (\<lambda>s2 tid.
     then_do (h_setitem s2 dump ''tool_call_id'' tid) (\<lambda>s3 u3.
     then_do (h_getitem s3 (Ref dump) ''metadata'') (\<lambda>s4 md2.
     then_do (h_getitem s4 md2 ''function_name'') (\<lambda>s5 fname.
     then_do (h_setitem s5 dump ''name'' fname) (\<lambda>s6 u6.
     then_do (h_pop s6 dump ''metadata'') (\<lambda>s7 u7.
       (s7, Inr dump))))))))"

text \<open>Source lines 86 to 89: the condition, with its short-circuit, and the three writes.\<close>

definition h_promote :: "store \<Rightarrow> addr \<Rightarrow> addr run" where
  "h_promote s dump =
     then_do (h_contains s (Ref dump) ''metadata'') (\<lambda>s1 has_metadata.
       if \<not> has_metadata then (s1, Inr dump)
       else
         then_do (h_getitem s1 (Ref dump) ''metadata'') (\<lambda>s2 md.
         then_do (h_contains s2 md ''tool_call_id'') (\<lambda>s3 has_id.
           if \<not> has_id then (s3, Inr dump)
           else h_promote_write s3 dump)))"

text \<open>Source lines 84 to 93, for the message at address \<open>message\<close>.\<close>

definition h_prepare_message :: "bool \<Rightarrow> store \<Rightarrow> addr \<Rightarrow> addr run" where
  "h_prepare_message share s message =
     then_do (h_getattr s message ''role'') (\<lambda>s1 r.
       if r = Imm (VRole TOOL) then
         then_do (h_model_dump share True [''encoding''] s1 message) h_promote
       else
         h_model_dump share True
           [''metadata'', ''encoding'', ''ai_model_id'', ''inner_content'', ''choice_index'']
           s1 message)"

text \<open>
  The loop over the items of \<^verbatim>\<open>chat_history.messages\<close>, with \<open>prepared\<close> the
  address of the list \<^verbatim>\<open>prepared_messages\<close>.
\<close>

fun h_prepare_loop :: "bool \<Rightarrow> store \<Rightarrow> hval list \<Rightarrow> addr \<Rightarrow> addr run" where
  "h_prepare_loop share s [] prepared = (s, Inr prepared)"
| "h_prepare_loop share s (Ref message # rest) prepared =
     then_do (h_prepare_message share s message) (\<lambda>s1 dump.
     then_do (h_append s1 prepared (Ref dump)) (\<lambda>s2 u.
       h_prepare_loop share s2 rest prepared))"
| "h_prepare_loop share s (Imm v # rest) prepared = (s, Inl (AttributeError ''role''))"

text \<open>The items of a list object, for \<^verbatim>\<open>for message in ...\<close>.\<close>

definition h_list_items :: "store \<Rightarrow> hval \<Rightarrow> hval list run" where
  "h_list_items s v =
     (case v of
        Ref l \<Rightarrow>
          (case lookup s l of
             Some (ListObj items) \<Rightarrow> (s, Inr items)
           | _ \<Rightarrow> (s, Inl TypeError))
      | Imm x \<Rightarrow> (s, Inl TypeError))"

text \<open>
  \<^verbatim>\<open>_prepare_chat_history_for_request(self, chat_history)\<close> on addresses: the value is
  the address of the list of the dumps.
\<close>

definition h_prepare_chat_history_for_request ::
  "bool \<Rightarrow> store \<Rightarrow> addr \<Rightarrow> addr \<Rightarrow> addr run" where
  "h_prepare_chat_history_for_request share s self chat_history =
     then_do (alloc s (ListObj [])) (\<lambda>s1 prepared.
     then_do (h_getattr s1 chat_history ''messages'') (\<lambda>s2 ms.
     then_do (h_list_items s2 ms) (\<lambda>s3 items.
       h_prepare_loop share s3 items prepared)))"

text \<open>Every object of \<open>s0\<close> is still in \<open>s\<close>, at its address and unchanged.\<close>

definition kept :: "store \<Rightarrow> store \<Rightarrow> bool" where
  "kept s0 s = (take (length s0) s = s0)"

text \<open>
  A store for the examples: at 0 the metadata dict of the Tool message at 1, at 2 a User
  message, at 3 the list of the two messages, at 4 the chat history, at 5 the client.
\<close>

definition ex_store :: store where
  "ex_store =
     [DictObj [(''tool_call_id'', Imm (VStr ''call_1'')), (''function_name'', Imm (VStr ''add''))],
      InstanceObj [(''role'', Imm (VRole TOOL)), (''content'', Imm (VStr ''42'')),
                   (''ai_model_id'', Imm VNone), (''inner_content'', Imm VNone),
                   (''encoding'', Imm (VStr ''utf-8'')), (''choice_index'', Imm VNone),
                   (''metadata'', Ref 0)],
      InstanceObj [(''role'', Imm (VRole USER)), (''content'', Imm (VStr ''2+2?'')),
                   (''ai_model_id'', Imm VNone), (''inner_content'', Imm VNone),
                   (''encoding'', Imm VNone), (''choice_index'', Imm VNone),
                   (''metadata'', Imm VNone)],
      ListObj [Ref 2, Ref 1],
      InstanceObj [(''messages'', Ref 3)],
      InstanceObj [(''ai_model_id'', Imm (VStr ''m'')), (''service_id'', Imm (VStr ''s''))]]"

text \<open>
  The example store after the call with shared references: the list of the dumps at 6, the
  dump of the User message at 7, the dump of the Tool message at 8.
\<close>

definition ex_store_after :: store where
  "ex_store_after =
     ex_store @
     [ListObj [Ref 7, Ref 8],
      DictObj [(''role'', Imm (VRole USER)), (''content'', Imm (VStr ''2+2?''))],
      DictObj [(''role'', Imm (VRole TOOL)), (''content'', Imm (VStr ''42'')),
               (''tool_call_id'', Imm (VStr ''call_1'')), (''name'', Imm (VStr ''add''))]]"

subsection \<open>Objects and the values they hold\<close>

text \<open>
  When an object in the store holds a value of the first model. A slot holds a value
  directly, or refers to a dict object whose slots hold the values of the dict directly
  (the metadata of a message, shared or copied).
\<close>

fun is_val :: "store \<Rightarrow> hval \<Rightarrow> pyval \<Rightarrow> bool" where
  "is_val s (Imm x) v = (x = v)"
| "is_val s (Ref a) v =
     (case v of
        VDict md \<Rightarrow> lookup s a = Some (DictObj (map (\<lambda>(k, x). (k, Imm x)) md))
      | _ \<Rightarrow> False)"

text \<open>The slots of an object hold a dict, key by key and in the same order.\<close>

definition is_slot :: "store \<Rightarrow> string \<times> hval \<Rightarrow> string \<times> pyval \<Rightarrow> bool" where
  "is_slot s kv kv' = (fst kv = fst kv' \<and> is_val s (snd kv) (snd kv'))"

definition is_slots :: "store \<Rightarrow> (string \<times> hval) list \<Rightarrow> pydict \<Rightarrow> bool" where
  "is_slots s al pd = list_all2 (is_slot s) al pd"

text \<open>
  A reference to an instance that holds the message \<open>m\<close>, to a dict object that holds
  the record \<open>pd\<close>, and the address of a list object that holds the records \<open>rs\<close>.
\<close>

definition is_message :: "store \<Rightarrow> hval \<Rightarrow> ChatMessageContent \<Rightarrow> bool" where
  "is_message s v m =
     (case v of
        Ref a \<Rightarrow>
          (case lookup s a of
             Some (InstanceObj al) \<Rightarrow> is_slots s al (model_fields m)
           | _ \<Rightarrow> False)
      | Imm x \<Rightarrow> False)"

definition is_dump :: "store \<Rightarrow> hval \<Rightarrow> pydict \<Rightarrow> bool" where
  "is_dump s v pd =
     (case v of
        Ref d \<Rightarrow>
          (case lookup s d of
             Some (DictObj al) \<Rightarrow> is_slots s al pd
           | _ \<Rightarrow> False)
      | Imm x \<Rightarrow> False)"

definition is_dumps :: "store \<Rightarrow> addr \<Rightarrow> pydict list \<Rightarrow> bool" where
  "is_dumps s l rs =
     (case lookup s l of
        Some (ListObj items) \<Rightarrow> list_all2 (is_dump s) items rs
      | _ \<Rightarrow> False)"

text \<open>
  The address of a chat history object whose attribute \<^verbatim>\<open>messages\<close> refers to a list
  of the messages of \<open>h\<close>.
\<close>

definition is_history :: "store \<Rightarrow> addr \<Rightarrow> ChatHistory \<Rightarrow> bool" where
  "is_history s a h =
     (case lookup s a of
        Some (InstanceObj attrs) \<Rightarrow>
          (case map_of attrs ''messages'' of
             Some (Ref l) \<Rightarrow>
               (case lookup s l of
                  Some (ListObj items) \<Rightarrow> list_all2 (is_message s) items (messages h)
                | _ \<Rightarrow> False)
           | _ \<Rightarrow> False)
      | _ \<Rightarrow> False)"

text \<open>What a run represents: the same exception, or a list of dumps for the records.\<close>

definition is_result :: "addr run \<Rightarrow> error + pydict list \<Rightarrow> bool" where
  "is_result r res =
     (case res of
        Inl e \<Rightarrow> snd r = Inl e
      | Inr rs \<Rightarrow> (case snd r of Inr l \<Rightarrow> is_dumps (fst r) l rs | Inl e \<Rightarrow> False))"

text \<open>The chat history that the example store holds at address 4.\<close>

definition ex_history :: ChatHistory where
  "ex_history =
     \<lparr>messages =
        [mk_message USER (Some ''2+2?'') None,
         (mk_message TOOL (Some ''42'')
            (Some [(''tool_call_id'', VStr ''call_1''), (''function_name'', VStr ''add'')]))
           \<lparr>encoding := Some ''utf-8''\<rparr>]\<rparr>"

section \<open>Basic facts about the operations\<close>

text \<open>Looking a key up in a filtered dict whose keys are distinct.\<close>

lemma lookup_filtered:
  assumes "distinct (map fst xs)"
  shows "map_of (filter P xs) k =
           (if \<exists>v. map_of xs k = Some v \<and> P (k, v) then map_of xs k else None)"
  using assms
proof (induction xs)
  case Nil
  show ?case by simp
next
  case (Cons x xs)
  obtain a b where x: "x = (a, b)" by (cases x)
  from Cons.prems have fresh: "map_of xs a = None" and d: "distinct (map fst xs)"
    by (auto simp: x map_of_eq_None_iff)
  from Cons.IH [OF d] fresh show ?case
    by (auto simp: x split: if_splits)
qed

lemma model_fields_distinct: "distinct (map fst (model_fields m))"
  by (simp add: model_fields_def)

text \<open>What a dump holds under each key.\<close>

lemma map_of_model_dump:
  "map_of (model_dump en ex m) k =
     (case map_of (model_fields m) k of
        None \<Rightarrow> None
      | Some v \<Rightarrow> if k \<notin> set ex \<and> (en \<longrightarrow> v \<noteq> VNone) then Some v else None)"
  unfolding model_dump_def
  by (auto simp: lookup_filtered [OF model_fields_distinct] split: option.splits)

lemma map_of_model_fields_role: "map_of (model_fields m) ''role'' = Some (VRole (role m))"
  by (simp add: model_fields_def)

lemma map_of_model_fields_content:
  "map_of (model_fields m) ''content'' = Some (opt VStr (content m))"
  by (simp add: model_fields_def)

lemma map_of_model_fields_metadata:
  "map_of (model_fields m) ''metadata'' = Some (opt VDict (metadata m))"
  by (simp add: model_fields_def)

text \<open>The dumped metadata is a dict, and it is there exactly when the message has one.\<close>

lemma model_dump_metadata:
  "map_of (model_dump True [''encoding''] m) ''metadata'' = map_option VDict (metadata m)"
  by (cases "metadata m") (simp_all add: map_of_model_dump map_of_model_fields_metadata)

text \<open>
  The loop returns exactly when every message yields a record, and then it returns these
  records after the ones it started with, in the order of the messages.
\<close>

lemma prepare_loop_Inr:
  "prepare_loop ms acc = Inr rs \<longleftrightarrow>
     (\<exists>ds. map prepare_message ms = map Inr ds \<and> rs = acc @ ds)"
proof (induction ms arbitrary: acc)
  case Nil
  then show ?case by auto
next
  case (Cons m ms)
  show ?case
  proof (cases "prepare_message m")
    case (Inl e)
    then show ?thesis by (auto simp: map_eq_Cons_conv)
  next
    case (Inr d)
    then show ?thesis
      by (auto simp: Cons.IH map_eq_Cons_conv Cons_eq_map_conv)
  qed
qed

lemma prepare_chat_history_Inr:
  "prepare_chat_history_for_request self h = Inr rs \<longleftrightarrow>
     map prepare_message (messages h) = map Inr rs"
  by (simp add: prepare_chat_history_for_request_def prepare_loop_Inr)

lemma map_of_setitem: "map_of (setitem d k v) = (map_of d)(k \<mapsto> v)"
  by (simp add: setitem_def update_conv')

lemma map_of_pop: "map_of (pop d k) = (map_of d)(k := None)"
  by (simp add: pop_def delete_conv')

text \<open>The Tool branch, by the shape of the metadata.\<close>

lemma prepare_message_tool:
  assumes "role m = TOOL"
  shows "prepare_message m =
     (let dump = model_dump True [''encoding''] m in
      case metadata m of
        None \<Rightarrow> Inr dump
      | Some md \<Rightarrow>
          (case map_of md ''tool_call_id'' of
             None \<Rightarrow> Inr dump
           | Some tid \<Rightarrow>
               (case map_of md ''function_name'' of
                  None \<Rightarrow> Inl (KeyError ''function_name'')
                | Some fname \<Rightarrow>
                    Inr (pop (setitem (setitem dump ''tool_call_id'' tid) ''name'' fname)
                           ''metadata''))))"
  using assms
  by (simp add: prepare_message_def model_dump_metadata contains_def getitem_def Let_def
        split: option.splits)

lemma prepare_message_other:
  "role m \<noteq> TOOL \<Longrightarrow>
   prepare_message m =
     Inr (model_dump True
            [''metadata'', ''encoding'', ''ai_model_id'', ''inner_content'', ''choice_index''] m)"
  by (simp add: prepare_message_def)

lemma prepare_singleton:
  "prepare_chat_history_for_request self \<lparr>messages = [m]\<rparr> =
     (case prepare_message m of Inl e \<Rightarrow> Inl e | Inr d \<Rightarrow> Inr [d])"
  by (simp add: prepare_chat_history_for_request_def split: sum.splits)

lemma map_Inr_ex:
  "(\<forall>x \<in> set xs. \<exists>d. f x = Inr d) \<Longrightarrow> \<exists>ds. map f xs = map Inr ds"
proof (induction xs)
  case Nil
  then show ?case by simp
next
  case (Cons x xs)
  then obtain d ds where "f x = Inr d" and "map f xs = map Inr ds" by auto
  then have "map f (x # xs) = map Inr (d # ds)" by simp
  then show ?case by blast
qed

text \<open>Every record carries the role of its message.\<close>

lemma prepare_message_role:
  "prepare_message m = Inr d \<Longrightarrow> map_of d ''role'' = Some (VRole (role m))"
proof (cases "role m = TOOL")
  case True
  assume "prepare_message m = Inr d"
  then show ?thesis
    by (auto simp: prepare_message_tool [OF True] Let_def map_of_pop map_of_setitem
          map_of_model_dump map_of_model_fields_role split: option.splits)
next
  case False
  assume "prepare_message m = Inr d"
  then show ?thesis
    by (auto simp: prepare_message_other [OF False] map_of_model_dump map_of_model_fields_role)
qed

text \<open>
  When the whole function raises and when it returns: it raises exactly when some message
  is one of those above, always with the same exception, and a returned list has one
  record for each message, the record of the message at the same index.
\<close>

lemma prepare_message_missing:
  "missing_function_name m \<Longrightarrow> prepare_message m = Inl (KeyError ''function_name'')"
  by (auto simp: missing_function_name_def prepare_message_tool contains_def
        split: option.splits)

lemma prepare_message_present:
  assumes "\<not> missing_function_name m"
  shows "\<exists>d. prepare_message m = Inr d"
proof (cases "role m = TOOL")
  case True
  with assms show ?thesis
    by (auto simp: missing_function_name_def prepare_message_tool [OF True] contains_def
          Let_def split: option.splits)
next
  case False
  then show ?thesis by (simp add: prepare_message_other)
qed

lemma prepare_message_Inl:
  assumes "prepare_message m = Inl e"
  shows "missing_function_name m \<and> e = KeyError ''function_name''"
proof -
  from assms prepare_message_present [of m] have "missing_function_name m" by auto
  with assms prepare_message_missing [of m] show ?thesis by simp
qed

lemma prepare_loop_raises:
  assumes "m \<in> set ms" and "missing_function_name m"
  shows "prepare_loop ms acc = Inl (KeyError ''function_name'')"
  using assms(1)
proof (induction ms arbitrary: acc)
  case Nil
  then show ?case by simp
next
  case (Cons x xs)
  show ?case
  proof (cases "prepare_message x")
    case (Inl e)
    with prepare_message_Inl [OF Inl] show ?thesis by simp
  next
    case (Inr d)
    with prepare_message_missing [OF assms(2)] have "x \<noteq> m" by auto
    with Cons.prems have "m \<in> set xs" by simp
    from Cons.IH [OF this] Inr show ?thesis by simp
  qed
qed

lemma prepare_raises:
  assumes "m \<in> set (messages h)" and "missing_function_name m"
  shows "prepare_chat_history_for_request self h = Inl (KeyError ''function_name'')"
  by (simp add: prepare_chat_history_for_request_def prepare_loop_raises [OF assms])

lemma prepare_returns:
  assumes "\<forall>m \<in> set (messages h). \<not> missing_function_name m"
  shows "\<exists>rs. prepare_chat_history_for_request self h = Inr rs"
proof -
  from assms have "\<forall>m \<in> set (messages h). \<exists>d. prepare_message m = Inr d"
    by (simp add: prepare_message_present)
  then obtain rs where "map prepare_message (messages h) = map Inr rs"
    using map_Inr_ex by blast
  then show ?thesis by (auto simp: prepare_chat_history_Inr)
qed

lemma prepare_length:
  assumes "prepare_chat_history_for_request self h = Inr rs"
  shows "length rs = length (messages h)"
proof -
  from assms have "map prepare_message (messages h) = map Inr rs"
    by (simp add: prepare_chat_history_Inr)
  then have "length (map prepare_message (messages h)) = length (map Inr rs)" by simp
  then show ?thesis by simp
qed

lemma prepare_nth:
  assumes "prepare_chat_history_for_request self h = Inr rs" and "i < length (messages h)"
  shows "prepare_message (messages h ! i) = Inr (rs ! i)"
proof -
  from assms(1) have eq: "map prepare_message (messages h) = map Inr rs"
    by (simp add: prepare_chat_history_Inr)
  then have "map prepare_message (messages h) ! i = map Inr rs ! i" by simp
  with assms(2) prepare_length [OF assms(1)] show ?thesis by simp
qed

lemma prepare_returns_but_one:
  assumes "i < length (messages h)" and "\<not> missing_function_name (messages h ! i)"
    and "\<forall>j < length (messages h). j \<noteq> i \<longrightarrow> \<not> missing_function_name (messages h ! j)"
  shows "\<exists>rs. prepare_chat_history_for_request self h = Inr rs"
proof (rule prepare_returns, rule ballI)
  fix m assume "m \<in> set (messages h)"
  then obtain j where j: "j < length (messages h)" and m: "m = messages h ! j"
    by (auto simp: in_set_conv_nth)
  show "\<not> missing_function_name m"
  proof (cases "j = i")
    case True
    with assms(2) m show ?thesis by simp
  next
    case False
    with assms(3) j m show ?thesis by simp
  qed
qed

section \<open>Writes in the store go to new objects only\<close>

lemma kept_refl: "kept s s"
  by (simp add: kept_def)

lemma kept_length:
  assumes "kept s0 s"
  shows "length s0 \<le> length s"
proof -
  from assms have "length (take (length s0) s) = length s0"
    by (simp add: kept_def)
  then show ?thesis by simp
qed

lemma kept_snoc:
  assumes "kept s0 s"
  shows "kept s0 (s @ [ob])"
  using assms kept_length [OF assms] by (simp add: kept_def)

lemma kept_update: "kept s0 s \<Longrightarrow> length s0 \<le> a \<Longrightarrow> kept s0 (s[a := ob])"
  by (simp add: kept_def)

lemma kept_lookup:
  assumes "kept s0 s" and "a < length s0"
  shows "lookup s a = lookup s0 a"
proof -
  from assms(1) have "s0 ! a = take (length s0) s ! a"
    by (simp add: kept_def)
  also from assms(2) have "\<dots> = s ! a" by simp
  finally have "s0 ! a = s ! a" .
  with assms(2) kept_length [OF assms(1)] show ?thesis
    by (simp add: lookup_def)
qed

lemma then_do_kept:
  assumes "kept s0 (fst m)"
    and "\<And>x. snd m = Inr x \<Longrightarrow> kept s0 (fst (f (fst m) x))"
  shows "kept s0 (fst (then_do m f))"
proof (cases m)
  case (Pair s1 r)
  then show ?thesis using assms by (cases r) (simp_all add: then_do_def)
qed

lemma h_getattr_fst: "fst (h_getattr s a name) = s"
  by (simp add: h_getattr_def split: option.splits obj.splits)

lemma h_contains_fst: "fst (h_contains s d k) = s"
  by (simp add: h_contains_def split: option.splits obj.splits hval.splits pyval.splits)

lemma h_getitem_fst: "fst (h_getitem s d k) = s"
  by (simp add: h_getitem_def split: option.splits obj.splits hval.splits pyval.splits)

lemma h_setitem_kept:
  "kept s0 s \<Longrightarrow> length s0 \<le> a \<Longrightarrow> kept s0 (fst (h_setitem s a k v))"
  by (simp add: h_setitem_def kept_update split: option.splits obj.splits)

lemma h_pop_kept:
  "kept s0 s \<Longrightarrow> length s0 \<le> a \<Longrightarrow> kept s0 (fst (h_pop s a k))"
  by (simp add: h_pop_def kept_update split: option.splits obj.splits)

lemma h_append_kept:
  "kept s0 s \<Longrightarrow> length s0 \<le> a \<Longrightarrow> kept s0 (fst (h_append s a v))"
  by (simp add: h_append_def kept_update split: option.splits obj.splits)

lemma h_promote_write_kept:
  assumes "kept s0 s" and "length s0 \<le> dump"
  shows "kept s0 (fst (h_promote_write s dump))"
  unfolding h_promote_write_def
  by (intro then_do_kept)
     (simp_all add: h_getitem_fst h_setitem_kept h_pop_kept assms)

lemma h_promote_kept:
  assumes "kept s0 s" and "length s0 \<le> dump"
  shows "kept s0 (fst (h_promote s dump))"
  unfolding h_promote_def
  by (intro then_do_kept)
     (simp_all add: h_getitem_fst h_contains_fst h_promote_write_kept then_do_kept assms)

lemma dump_values_kept:
  "kept s0 s \<Longrightarrow> kept s0 (fst (dump_values share s al))"
proof (induction al arbitrary: s)
  case Nil
  then show ?case by simp
next
  case (Cons kv al)
  obtain k v where kv: "kv = (k, v)" by (cases kv)
  show ?case
  proof (cases v)
    case (Imm x)
    with Cons kv show ?thesis by (simp add: split_def Let_def)
  next
    case (Ref a)
    show ?thesis
    proof (cases "share \<or> lookup s a = None")
      case True
      with Cons kv Ref show ?thesis by (auto simp: split_def Let_def)
    next
      case False
      then obtain ob where ob: "lookup s a = Some ob" and ns: "\<not> share" by auto
      from Cons.prems have "kept s0 (s @ [ob])" by (rule kept_snoc)
      then have "kept s0 (fst (dump_values share (s @ [ob]) al))" by (rule Cons.IH)
      with kv Ref ob ns show ?thesis by (simp add: split_def Let_def)
    qed
  qed
qed

lemma alloc_kept: "kept s0 s \<Longrightarrow> kept s0 (fst (alloc s ob))"
  by (simp add: alloc_def kept_snoc)

lemma alloc_fresh: "snd (alloc s ob) = Inr d \<Longrightarrow> d = length s"
  by (simp add: alloc_def)

lemma h_model_dump_kept:
  "kept s0 s \<Longrightarrow> kept s0 (fst (h_model_dump share en ex s a))"
  by (simp add: h_model_dump_def Let_def split_def alloc_kept dump_values_kept
        split: option.splits obj.splits)

lemma h_model_dump_fresh:
  assumes "snd (h_model_dump share en ex s a) = Inr d"
  shows "length s \<le> d"
proof -
  have "length s \<le> length (fst (dump_values share s al))" for al
    by (rule kept_length [OF dump_values_kept [OF kept_refl]])
  with assms show ?thesis
    by (auto simp: h_model_dump_def Let_def split_def alloc_def
          split: option.splits obj.splits)
qed

lemma h_prepare_message_kept:
  assumes "kept s0 s"
  shows "kept s0 (fst (h_prepare_message share s message))"
proof -
  have tool: "kept s0 (fst (then_do (h_model_dump share True [''encoding''] s message) h_promote))"
  proof (rule then_do_kept)
    show "kept s0 (fst (h_model_dump share True [''encoding''] s message))"
      using assms by (rule h_model_dump_kept)
  next
    fix x
    assume "snd (h_model_dump share True [''encoding''] s message) = Inr x"
    then have "length s \<le> x" by (rule h_model_dump_fresh)
    with kept_length [OF assms] have "length s0 \<le> x" by simp
    with h_model_dump_kept [OF assms]
    show "kept s0 (fst (h_promote (fst (h_model_dump share True [''encoding''] s message)) x))"
      by (rule h_promote_kept)
  qed
  show ?thesis
    unfolding h_prepare_message_def
    by (rule then_do_kept) (simp_all add: h_getattr_fst assms tool h_model_dump_kept)
qed

lemma h_prepare_loop_kept:
  "kept s0 s \<Longrightarrow> length s0 \<le> prepared \<Longrightarrow>
   kept s0 (fst (h_prepare_loop share s items prepared))"
proof (induction items arbitrary: s)
  case Nil
  then show ?case by simp
next
  case (Cons item items)
  show ?case
  proof (cases item)
    case (Imm v)
    with Cons.prems show ?thesis by simp
  next
    case (Ref message)
    have "kept s0 (fst (then_do (h_prepare_message share s message) (\<lambda>s1 dump.
            then_do (h_append s1 prepared (Ref dump)) (\<lambda>s2 u.
              h_prepare_loop share s2 items prepared))))"
    proof (intro then_do_kept)
      show m: "kept s0 (fst (h_prepare_message share s message))"
        using Cons.prems(1) by (rule h_prepare_message_kept)
      fix x
      show a: "kept s0 (fst (h_append (fst (h_prepare_message share s message)) prepared (Ref x)))"
        using m Cons.prems(2) by (rule h_append_kept)
      fix u
      show "kept s0 (fst (h_prepare_loop share
              (fst (h_append (fst (h_prepare_message share s message)) prepared (Ref x)))
              items prepared))"
        using a Cons.prems(2) by (rule Cons.IH)
    qed
    with Ref show ?thesis by simp
  qed
qed

lemma h_list_items_fst: "fst (h_list_items s v) = s"
  by (simp add: h_list_items_def split: hval.splits option.splits obj.splits)

lemma h_prepare_kept:
  "kept s (fst (h_prepare_chat_history_for_request share s self chat_history))"
  unfolding h_prepare_chat_history_for_request_def
proof (intro then_do_kept)
  show a: "kept s (fst (alloc s (ListObj [])))"
    by (rule alloc_kept [OF kept_refl])
  fix prepared
  assume "snd (alloc s (ListObj [])) = Inr prepared"
  then have p: "length s \<le> prepared" by (simp add: alloc_def)
  show g: "kept s (fst (h_getattr (fst (alloc s (ListObj []))) chat_history ''messages''))"
    using a by (simp add: h_getattr_fst)
  fix ms
  show l: "kept s (fst (h_list_items
             (fst (h_getattr (fst (alloc s (ListObj []))) chat_history ''messages'')) ms))"
    using g by (simp add: h_list_items_fst)
  fix items
  show "kept s (fst (h_prepare_loop share
          (fst (h_list_items
             (fst (h_getattr (fst (alloc s (ListObj []))) chat_history ''messages'')) ms))
          items prepared))"
    using l p by (rule h_prepare_loop_kept)
qed

subsection \<open>The run on the store computes the records of the first model\<close>

lemma lookup_SomeD: "lookup s a = Some ob \<Longrightarrow> a < length s"
  by (simp add: lookup_def split: if_splits)

lemma kept_lookup_Some:
  assumes "kept s0 s" and "lookup s0 a = Some ob"
  shows "lookup s a = Some ob"
  using kept_lookup [OF assms(1) lookup_SomeD [OF assms(2)]] assms(2) by simp

lemma is_val_kept: "kept s0 s \<Longrightarrow> is_val s0 v pv \<Longrightarrow> is_val s v pv"
  by (cases v) (auto simp: kept_lookup_Some split: pyval.splits)

lemma is_slots_kept: "kept s0 s \<Longrightarrow> is_slots s0 al pd \<Longrightarrow> is_slots s al pd"
  unfolding is_slots_def is_slot_def
  by (erule list_all2_mono) (auto simp: is_val_kept)

lemma is_message_kept: "kept s0 s \<Longrightarrow> is_message s0 v m \<Longrightarrow> is_message s v m"
  by (auto simp: is_message_def kept_lookup_Some is_slots_kept
        split: hval.splits option.splits obj.splits)

lemma is_dump_kept: "kept s0 s \<Longrightarrow> is_dump s0 v pd \<Longrightarrow> is_dump s v pd"
  by (auto simp: is_dump_def kept_lookup_Some is_slots_kept
        split: hval.splits option.splits obj.splits)

lemma is_slots_Nil [simp]: "is_slots s [] pd \<longleftrightarrow> pd = []" "is_slots s al [] \<longleftrightarrow> al = []"
  by (simp_all add: is_slots_def)

lemma is_slots_Cons:
  "is_slots s (kv # al) pd \<longleftrightarrow>
     (\<exists>kv' pd'. pd = kv' # pd' \<and> is_slot s kv kv' \<and> is_slots s al pd')"
  by (simp add: is_slots_def list_all2_Cons1)

lemma is_slots_map_of_None:
  "is_slots s al pd \<Longrightarrow> (map_of al k = None) = (map_of pd k = None)"
proof (induction al arbitrary: pd)
  case Nil
  then show ?case by simp
next
  case (Cons kv al)
  then show ?case
    by (cases kv) (auto simp: is_slots_Cons is_slot_def)
qed

lemma is_slots_filter:
  assumes "is_slots s al pd" and "\<And>x y. is_slot s x y \<Longrightarrow> P x = Q y"
  shows "is_slots s (filter P al) (filter Q pd)"
  using assms(1)
proof (induction al arbitrary: pd)
  case Nil
  then show ?case by simp
next
  case (Cons kv al)
  then obtain kv' pd' where pd: "pd = kv' # pd'" and h: "is_slot s kv kv'"
      and t: "is_slots s al pd'"
    by (auto simp: is_slots_Cons)
  from Cons.IH [OF t] assms(2) [OF h] h show ?case
    by (simp add: pd is_slots_Cons)
qed

lemma is_slots_update:
  assumes "is_slots s al pd" and "is_val s v pv"
  shows "is_slots s (AList.update k v al) (AList.update k pv pd)"
  using assms(1)
proof (induction al arbitrary: pd)
  case Nil
  with assms(2) show ?case by (simp add: is_slots_Cons is_slot_def)
next
  case (Cons kv al)
  then obtain kv' pd' where pd: "pd = kv' # pd'" and h: "is_slot s kv kv'"
      and t: "is_slots s al pd'"
    by (auto simp: is_slots_Cons)
  from Cons.IH [OF t] t h assms(2) show ?case
    by (cases kv; cases kv') (auto simp: pd is_slots_Cons is_slot_def)
qed

lemma is_slots_delete:
  "is_slots s al pd \<Longrightarrow> is_slots s (AList.delete k al) (AList.delete k pd)"
proof (induction al arbitrary: pd)
  case Nil
  then show ?case by simp
next
  case (Cons kv al)
  then obtain kv' pd' where pd: "pd = kv' # pd'" and h: "is_slot s kv kv'"
      and t: "is_slots s al pd'"
    by (auto simp: is_slots_Cons)
  from Cons.IH [OF t] h show ?case
    by (cases kv; cases kv') (auto simp: pd is_slots_Cons is_slot_def)
qed

lemma lookup_snoc_new: "lookup (s @ [ob]) (length s) = Some ob"
  by (simp add: lookup_def)

lemma dump_values_slots:
  "is_slots s al pd \<Longrightarrow>
   is_slots (fst (dump_values share s al)) (snd (dump_values share s al)) pd"
proof (induction al arbitrary: s pd)
  case Nil
  then show ?case by simp
next
  case (Cons kv al)
  obtain k v where kv: "kv = (k, v)" by (cases kv)
  from Cons.prems obtain k' pv pd' where pd: "pd = (k', pv) # pd'" and kk: "k = k'"
      and hv: "is_val s v pv" and t: "is_slots s al pd'"
    by (auto simp: is_slots_Cons is_slot_def kv)
  show ?case
  proof (cases "\<exists>a ob. v = Ref a \<and> \<not> share \<and> lookup s a = Some ob")
    case False
    then have step: "dump_values share s (kv # al) =
        (fst (dump_values share s al), (k, v) # snd (dump_values share s al))"
      by (cases v) (auto simp: kv split_def Let_def split: option.splits)
    have k: "kept s (fst (dump_values share s al))"
      by (rule dump_values_kept [OF kept_refl])
    from Cons.IH [OF t] is_val_kept [OF k hv] show ?thesis
      by (simp add: step pd kk is_slots_Cons is_slot_def)
  next
    case True
    then obtain a ob where v: "v = Ref a" and ns: "\<not> share" and ob: "lookup s a = Some ob"
      by auto
    let ?s1 = "s @ [ob]"
    have step: "dump_values share s (kv # al) =
        (fst (dump_values share ?s1 al), (k, Ref (length s)) # snd (dump_values share ?s1 al))"
      using v ns ob by (simp add: kv split_def Let_def)
    have k1: "kept s ?s1" by (rule kept_snoc [OF kept_refl])
    have k2: "kept ?s1 (fst (dump_values share ?s1 al))"
      by (rule dump_values_kept [OF kept_refl])
    from hv v ob have "is_val ?s1 (Ref (length s)) pv"
      by (auto simp: lookup_snoc_new split: pyval.splits)
    then have new: "is_val (fst (dump_values share ?s1 al)) (Ref (length s)) pv"
      by (rule is_val_kept [OF k2])
    from is_slots_kept [OF k1 t] have "is_slots ?s1 al pd'" .
    from Cons.IH [OF this] new show ?thesis
      by (simp add: step pd kk is_slots_Cons is_slot_def)
  qed
qed

lemma is_slot_keep:
  "is_slot s x y \<Longrightarrow>
   (case x of (k, v) \<Rightarrow> k \<notin> set ex \<and> (en \<longrightarrow> v \<noteq> Imm VNone)) =
   (case y of (k, v) \<Rightarrow> k \<notin> set ex \<and> (en \<longrightarrow> v \<noteq> VNone))"
  by (cases x; cases y; cases "snd x") (auto simp: is_slot_def split: pyval.splits)

lemma h_model_dump_slots:
  assumes "is_message s (Ref a) m"
  shows "\<exists>s1 al. h_model_dump share en ex s a = (s1 @ [DictObj al], Inr (length s1))
           \<and> kept s s1 \<and> is_slots s1 al (model_dump en ex m)"
proof -
  from assms obtain attrs where l: "lookup s a = Some (InstanceObj attrs)"
      and sl: "is_slots s attrs (model_fields m)"
    by (auto simp: is_message_def split: option.splits obj.splits)
  let ?kept = "filter (\<lambda>(k, v). k \<notin> set ex \<and> (en \<longrightarrow> v \<noteq> Imm VNone)) attrs"
  have f: "is_slots s ?kept (model_dump en ex m)"
    unfolding model_dump_def using sl by (rule is_slots_filter) (rule is_slot_keep)
  let ?dv = "dump_values share s ?kept"
  have "h_model_dump share en ex s a = (fst ?dv @ [DictObj (snd ?dv)], Inr (length (fst ?dv)))"
    by (simp add: h_model_dump_def l Let_def split_def alloc_def)
  moreover have "kept s (fst ?dv)" by (rule dump_values_kept [OF kept_refl])
  moreover have "is_slots (fst ?dv) (snd ?dv) (model_dump en ex m)"
    using f by (rule dump_values_slots)
  ultimately show ?thesis by blast
qed

lemma is_slots_map_of_Some_rev:
  "is_slots s al pd \<Longrightarrow> map_of pd k = Some pv \<Longrightarrow>
     \<exists>v. map_of al k = Some v \<and> is_val s v pv"
proof (induction al arbitrary: pd)
  case Nil
  then show ?case by simp
next
  case (Cons kv al)
  then show ?case
    by (cases kv) (auto simp: is_slots_Cons is_slot_def split: if_splits)
qed

lemma map_of_Imm: "map_of (map (\<lambda>(k, x). (k, Imm x)) md) k = map_option Imm (map_of md k)"
  by (induction md) auto

lemma h_contains_val:
  "is_val s v (VDict md) \<Longrightarrow> h_contains s v k = (s, Inr (map_of md k \<noteq> None))"
  by (cases v) (auto simp: h_contains_def map_of_Imm)

lemma h_getitem_val:
  "is_val s v (VDict md) \<Longrightarrow>
   h_getitem s v k =
     (case map_of md k of None \<Rightarrow> (s, Inl (KeyError k)) | Some x \<Rightarrow> (s, Inr (Imm x)))"
  by (cases v) (auto simp: h_getitem_def map_of_Imm split: option.splits)

lemma h_contains_top:
  "h_contains (s1 @ [DictObj al]) (Ref (length s1)) k
     = (s1 @ [DictObj al], Inr (map_of al k \<noteq> None))"
  by (simp add: h_contains_def lookup_snoc_new)

lemma h_getitem_top:
  "h_getitem (s1 @ [DictObj al]) (Ref (length s1)) k =
     (case map_of al k of
        None \<Rightarrow> (s1 @ [DictObj al], Inl (KeyError k))
      | Some v \<Rightarrow> (s1 @ [DictObj al], Inr v))"
  by (simp add: h_getitem_def lookup_snoc_new)

lemma h_setitem_top:
  "h_setitem (s1 @ [DictObj al]) (length s1) k v
     = (s1 @ [DictObj (AList.update k v al)], Inr ())"
  by (simp add: h_setitem_def lookup_snoc_new)

lemma h_pop_top:
  "h_pop (s1 @ [DictObj al]) (length s1) k = (s1 @ [DictObj (AList.delete k al)], Inr ())"
  by (simp add: h_pop_def lookup_snoc_new)

lemma is_val_top: "is_val s1 v pv \<Longrightarrow> is_val (s1 @ [ob]) v pv"
  by (rule is_val_kept [OF kept_snoc [OF kept_refl]])

lemma then_do_Inr: "then_do (s, Inr x) f = f s x"
  by (simp add: then_do_def)

lemma then_do_Inl: "then_do (s, Inl e) f = (s, Inl e)"
  by (simp add: then_do_def)

lemma h_promote_absent:
  assumes "map_of al ''metadata'' = None"
  shows "h_promote (s1 @ [DictObj al]) (length s1) = (s1 @ [DictObj al], Inr (length s1))"
  by (simp add: h_promote_def h_contains_top assms then_do_Inr)

lemma h_promote_no_id:
  assumes "map_of al ''metadata'' = Some v" and "is_val s1 v (VDict md)"
    and "map_of md ''tool_call_id'' = None"
  shows "h_promote (s1 @ [DictObj al]) (length s1) = (s1 @ [DictObj al], Inr (length s1))"
  by (simp add: h_promote_def h_contains_top h_getitem_top assms(1,3) then_do_Inr
        h_contains_val [OF is_val_top [OF assms(2)]])

lemma h_promote_no_name:
  assumes "map_of al ''metadata'' = Some v" and "is_val s1 v (VDict md)"
    and "map_of md ''tool_call_id'' = Some t" and "map_of md ''function_name'' = None"
  shows "snd (h_promote (s1 @ [DictObj al]) (length s1)) = Inl (KeyError ''function_name'')"
  by (simp add: h_promote_def h_promote_write_def h_contains_top h_getitem_top h_setitem_top
        assms(1,3,4) then_do_Inr then_do_Inl update_conv'
        h_contains_val [OF is_val_top [OF assms(2)]]
        h_getitem_val [OF is_val_top [OF assms(2)]])

lemma h_promote_both:
  assumes "map_of al ''metadata'' = Some v" and "is_val s1 v (VDict md)"
    and "map_of md ''tool_call_id'' = Some t" and "map_of md ''function_name'' = Some f"
  shows "h_promote (s1 @ [DictObj al]) (length s1) =
     (s1 @ [DictObj (AList.delete ''metadata''
                       (AList.update ''name'' (Imm f)
                          (AList.update ''tool_call_id'' (Imm t) al)))],
      Inr (length s1))"
  by (simp add: h_promote_def h_promote_write_def h_contains_top h_getitem_top h_setitem_top
        h_pop_top assms(1,3,4) then_do_Inr then_do_Inl update_conv'
        h_contains_val [OF is_val_top [OF assms(2)]]
        h_getitem_val [OF is_val_top [OF assms(2)]])

lemma is_val_role: "is_val s v (VRole r) \<Longrightarrow> v = Imm (VRole r)"
  by (cases v) auto

lemma h_getattr_role:
  assumes "is_message s (Ref a) m"
  shows "h_getattr s a ''role'' = (s, Inr (Imm (VRole (role m))))"
proof -
  from assms obtain attrs where l: "lookup s a = Some (InstanceObj attrs)"
      and sl: "is_slots s attrs (model_fields m)"
    by (auto simp: is_message_def split: option.splits obj.splits)
  from is_slots_map_of_Some_rev [OF sl map_of_model_fields_role]
  obtain v where v: "map_of attrs ''role'' = Some v" and "is_val s v (VRole (role m))"
    by blast
  then have "v = Imm (VRole (role m))" by (simp add: is_val_role)
  with v l show ?thesis by (simp add: h_getattr_def)
qed

lemma h_prepare_message_other:
  assumes "is_message s (Ref a) m" and "role m \<noteq> TOOL"
  shows "\<exists>s1 al. h_prepare_message share s a = (s1 @ [DictObj al], Inr (length s1))
           \<and> kept s s1
           \<and> is_slots s1 al
                 (model_dump True
                    [''metadata'', ''encoding'', ''ai_model_id'', ''inner_content'',
                     ''choice_index''] m)"
  using h_model_dump_slots [OF assms(1)] assms(2)
  by (simp add: h_prepare_message_def h_getattr_role [OF assms(1)] then_do_Inr)

lemma h_prepare_message_tool:
  assumes "is_message s (Ref a) m" and "role m = TOOL"
  shows "case prepare_message m of
           Inl e \<Rightarrow> snd (h_prepare_message share s a) = Inl e
         | Inr pd \<Rightarrow>
             (\<exists>s1 al. h_prepare_message share s a = (s1 @ [DictObj al], Inr (length s1))
                \<and> kept s s1 \<and> is_slots s1 al pd)"
proof -
  let ?dump = "model_dump True [''encoding''] m"
  from h_model_dump_slots [OF assms(1), of share True "[''encoding'']"]
  obtain s1 al where d: "h_model_dump share True [''encoding''] s a = (s1 @ [DictObj al], Inr (length s1))"
      and k: "kept s s1" and sl: "is_slots s1 al ?dump"
    by blast
  have run: "h_prepare_message share s a = h_promote (s1 @ [DictObj al]) (length s1)"
    by (simp add: h_prepare_message_def h_getattr_role [OF assms(1)] then_do_Inr assms(2) d)
  show ?thesis
  proof (cases "metadata m")
    case None
    then have "map_of ?dump ''metadata'' = None" by (simp add: model_dump_metadata)
    with is_slots_map_of_None [OF sl, of "''metadata''"]
    have "map_of al ''metadata'' = None" by simp
    from h_promote_absent [OF this] k sl None show ?thesis
      by (simp add: prepare_message_tool [OF assms(2)] run)
  next
    case (Some md)
    then have "map_of ?dump ''metadata'' = Some (VDict md)" by (simp add: model_dump_metadata)
    from is_slots_map_of_Some_rev [OF sl this]
    obtain v where v: "map_of al ''metadata'' = Some v" and iv: "is_val s1 v (VDict md)"
      by blast
    show ?thesis
    proof (cases "map_of md ''tool_call_id''")
      case None
      from h_promote_no_id [OF v iv None] k sl Some None show ?thesis
        by (simp add: prepare_message_tool [OF assms(2)] run)
    next
      case t: (Some t)
      show ?thesis
      proof (cases "map_of md ''function_name''")
        case None
        from h_promote_no_name [OF v iv t None] Some t None show ?thesis
          by (simp add: prepare_message_tool [OF assms(2)] run)
      next
        case f: (Some f)
        have "is_slots s1
                (AList.delete ''metadata''
                   (AList.update ''name'' (Imm f) (AList.update ''tool_call_id'' (Imm t) al)))
                (pop (setitem (setitem ?dump ''tool_call_id'' t) ''name'' f) ''metadata'')"
          unfolding pop_def setitem_def
          by (intro is_slots_delete is_slots_update sl) simp_all
        with h_promote_both [OF v iv t f] k Some t f show ?thesis
          by (simp add: prepare_message_tool [OF assms(2)] run)
      qed
    qed
  qed
qed

lemma h_prepare_message_refines:
  assumes "is_message s (Ref a) m"
  shows "case prepare_message m of
           Inl e \<Rightarrow> snd (h_prepare_message share s a) = Inl e
         | Inr pd \<Rightarrow>
             (\<exists>s1 al. h_prepare_message share s a = (s1 @ [DictObj al], Inr (length s1))
                \<and> kept s s1 \<and> is_slots s1 al pd)"
proof (cases "role m = TOOL")
  case True
  then show ?thesis by (rule h_prepare_message_tool [OF assms])
next
  case False
  with h_prepare_message_other [OF assms False] show ?thesis
    by (simp add: prepare_message_other)
qed

lemma lookup_update:
  "p < length s \<Longrightarrow> lookup (s[p := ob]) a = (if a = p then Some ob else lookup s a)"
  by (simp add: lookup_def)

lemma is_val_list_write:
  assumes "lookup s p = Some (ListObj xs)"
  shows "is_val (s[p := ListObj ys]) v pv = is_val s v pv"
proof (cases v)
  case (Imm x)
  then show ?thesis by simp
next
  case (Ref a)
  from assms have "p < length s" by (rule lookup_SomeD)
  with assms Ref show ?thesis
    by (cases pv) (auto simp: lookup_update)
qed

lemma is_slots_list_write:
  assumes "lookup s p = Some (ListObj xs)"
  shows "is_slots (s[p := ListObj ys]) al pd = is_slots s al pd"
proof -
  have "is_slot (s[p := ListObj ys]) = is_slot s"
    by (intro ext) (simp add: is_slot_def is_val_list_write [OF assms])
  then show ?thesis by (simp add: is_slots_def)
qed

lemma is_message_list_write:
  assumes "lookup s p = Some (ListObj xs)"
  shows "is_message (s[p := ListObj ys]) v m = is_message s v m"
proof (cases v)
  case (Imm x)
  then show ?thesis by (simp add: is_message_def)
next
  case (Ref a)
  from assms have "p < length s" by (rule lookup_SomeD)
  with assms Ref show ?thesis
    by (auto simp: is_message_def lookup_update is_slots_list_write [OF assms]
          split: option.splits obj.splits)
qed

lemma is_dump_list_write:
  assumes "lookup s p = Some (ListObj xs)"
  shows "is_dump (s[p := ListObj ys]) v pd = is_dump s v pd"
proof (cases v)
  case (Imm x)
  then show ?thesis by (simp add: is_dump_def)
next
  case (Ref a)
  from assms have "p < length s" by (rule lookup_SomeD)
  with assms Ref show ?thesis
    by (auto simp: is_dump_def lookup_update is_slots_list_write [OF assms]
          split: option.splits obj.splits)
qed

lemma h_append_list:
  "lookup s p = Some (ListObj xs) \<Longrightarrow> h_append s p v = (s[p := ListObj (xs @ [v])], Inr ())"
  by (simp add: h_append_def)

lemma then_do_raises: "snd r = Inl e \<Longrightarrow> snd (then_do r f) = Inl e"
  by (cases r) (simp add: then_do_def)

lemma is_messages_kept:
  "kept s0 s \<Longrightarrow> list_all2 (is_message s0) items ms \<Longrightarrow> list_all2 (is_message s) items ms"
  by (erule list_all2_mono) (rule is_message_kept)

lemma is_dumps_list_kept:
  "kept s0 s \<Longrightarrow> list_all2 (is_dump s0) ds acc \<Longrightarrow> list_all2 (is_dump s) ds acc"
  by (erule list_all2_mono) (rule is_dump_kept)

lemma is_dump_top:
  assumes "is_slots s1 al pd"
  shows "is_dump (s1 @ [DictObj al]) (Ref (length s1)) pd"
  using is_slots_kept [OF kept_snoc [OF kept_refl] assms, of "DictObj al"]
  by (simp add: is_dump_def lookup_snoc_new)

lemma h_prepare_loop_refines:
  assumes "list_all2 (is_message s) items ms"
    and "lookup s p = Some (ListObj ds)"
    and "list_all2 (is_dump s) ds acc"
  shows "is_result (h_prepare_loop share s items p) (prepare_loop ms acc)"
  using assms
proof (induction items arbitrary: s ms ds acc)
  case Nil
  then show ?case by (simp add: is_result_def is_dumps_def)
next
  case (Cons item items)
  from Cons.prems(1) obtain m ms' where ms: "ms = m # ms'"
      and im: "is_message s item m" and rest: "list_all2 (is_message s) items ms'"
    by (auto simp: list_all2_Cons1)
  from im obtain a where item: "item = Ref a"
    by (cases item) (simp_all add: is_message_def)
  from im item have ima: "is_message s (Ref a) m" by simp
  show ?case
  proof (cases "prepare_message m")
    case (Inl e)
    with h_prepare_message_refines [OF ima, of share]
    have "snd (h_prepare_message share s a) = Inl e" by simp
    then have "snd (h_prepare_loop share s (item # items) p) = Inl e"
      unfolding item h_prepare_loop.simps by (rule then_do_raises)
    with Inl ms show ?thesis by (simp add: is_result_def)
  next
    case (Inr pd)
    with h_prepare_message_refines [OF ima, of share]
    obtain s1 al where run: "h_prepare_message share s a = (s1 @ [DictObj al], Inr (length s1))"
        and k: "kept s s1" and sl: "is_slots s1 al pd"
      by auto
    let ?s2 = "s1 @ [DictObj al]"
    let ?d = "Ref (length s1)"
    let ?s3 = "?s2[p := ListObj (ds @ [?d])]"
    have k2: "kept s ?s2" by (rule kept_snoc [OF k])
    have lp: "lookup ?s2 p = Some (ListObj ds)"
      by (rule kept_lookup_Some [OF k2 Cons.prems(2)])
    have p2: "p < length ?s2" by (rule lookup_SomeD [OF lp])
    have step: "h_prepare_loop share s (item # items) p = h_prepare_loop share ?s3 items p"
      by (simp add: item run then_do_Inr h_append_list [OF lp])
    have "is_message ?s3 = is_message ?s2"
      by (intro ext) (rule is_message_list_write [OF lp])
    with is_messages_kept [OF k2 rest] have m3: "list_all2 (is_message ?s3) items ms'"
      by simp
    have l3: "lookup ?s3 p = Some (ListObj (ds @ [?d]))"
      using p2 by (simp add: lookup_update)
    have "list_all2 (is_dump ?s2) (ds @ [?d]) (acc @ [pd])"
      using is_dumps_list_kept [OF k2 Cons.prems(3)] is_dump_top [OF sl]
      by (simp add: list_all2_appendI)
    moreover have "is_dump ?s3 = is_dump ?s2"
      by (intro ext) (rule is_dump_list_write [OF lp])
    ultimately have d3: "list_all2 (is_dump ?s3) (ds @ [?d]) (acc @ [pd])"
      by simp
    from Cons.IH [OF m3 l3 d3] show ?thesis
      by (simp add: step ms Inr)
  qed
qed

lemma h_prepare_refines:
  assumes "is_history s chat_history h"
  shows "is_result (h_prepare_chat_history_for_request share s self chat_history)
           (prepare_chat_history_for_request c h)"
proof -
  from assms obtain attrs l items
    where la: "lookup s chat_history = Some (InstanceObj attrs)"
      and ma: "map_of attrs ''messages'' = Some (Ref l)"
      and ll: "lookup s l = Some (ListObj items)"
      and ms: "list_all2 (is_message s) items (messages h)"
    by (auto simp: is_history_def split: option.splits obj.splits hval.splits)
  let ?s1 = "s @ [ListObj []]"
  have k: "kept s ?s1" by (rule kept_snoc [OF kept_refl])
  have la1: "lookup ?s1 chat_history = Some (InstanceObj attrs)"
    by (rule kept_lookup_Some [OF k la])
  have ll1: "lookup ?s1 l = Some (ListObj items)"
    by (rule kept_lookup_Some [OF k ll])
  have run: "h_prepare_chat_history_for_request share s self chat_history
               = h_prepare_loop share ?s1 items (length s)"
    by (simp add: h_prepare_chat_history_for_request_def alloc_def then_do_Inr
          h_getattr_def la1 ma h_list_items_def ll1)
  have "is_result (h_prepare_loop share ?s1 items (length s)) (prepare_loop (messages h) [])"
    by (rule h_prepare_loop_refines [OF is_messages_kept [OF k ms] lookup_snoc_new]) simp
  then show ?thesis
    by (simp add: run prepare_chat_history_for_request_def)
qed

lemma is_history_kept:
  assumes "kept s0 s" and "is_history s0 a h"
  shows "is_history s a h"
proof -
  from assms(2) obtain attrs l items
    where la: "lookup s0 a = Some (InstanceObj attrs)"
      and ma: "map_of attrs ''messages'' = Some (Ref l)"
      and ll: "lookup s0 l = Some (ListObj items)"
      and ms: "list_all2 (is_message s0) items (messages h)"
    by (auto simp: is_history_def split: option.splits obj.splits hval.splits)
  from kept_lookup_Some [OF assms(1) la] ma kept_lookup_Some [OF assms(1) ll]
    is_messages_kept [OF assms(1) ms]
  show ?thesis by (simp add: is_history_def)
qed

lemma is_result_kept:
  assumes "kept s0 s" and "is_result (s0, r) res"
  shows "is_result (s, r) res"
proof (cases res)
  case (Inl e)
  with assms(2) show ?thesis by (simp add: is_result_def)
next
  case (Inr rs)
  with assms(2) obtain l items where r: "r = Inr l"
      and ll: "lookup s0 l = Some (ListObj items)"
      and ds: "list_all2 (is_dump s0) items rs"
    by (auto simp: is_result_def is_dumps_def split: sum.splits option.splits obj.splits)
  from kept_lookup_Some [OF assms(1) ll] is_dumps_list_kept [OF assms(1) ds] r Inr
  show ?thesis by (simp add: is_result_def is_dumps_def)
qed

text \<open>An object holds at most one value, and a run at most one result.\<close>

lemma is_val_unique:
  assumes "is_val s v pv" and "is_val s v pv'"
  shows "pv = pv'"
proof (cases v)
  case (Imm x)
  with assms show ?thesis by simp
next
  case (Ref a)
  with assms obtain md md' where pv: "pv = VDict md" and pv': "pv' = VDict md'"
      and eq: "map (\<lambda>(k, x). (k, Imm x)) md = map (\<lambda>(k, x). (k, Imm x)) md'"
    by (cases pv; cases pv') auto
  have "inj (\<lambda>(k :: string, x). (k, Imm x))"
    by (auto simp: inj_on_def)
  with eq have "md = md'" by (simp add: inj_map_eq_map)
  with pv pv' show ?thesis by simp
qed

lemma is_slots_unique:
  "is_slots s al pd \<Longrightarrow> is_slots s al pd' \<Longrightarrow> pd = pd'"
proof (induction al arbitrary: pd pd')
  case Nil
  then show ?case by simp
next
  case (Cons kv al)
  then show ?case
    by (auto simp: is_slots_Cons is_slot_def prod_eq_iff dest: is_val_unique)
qed

lemma is_dump_unique:
  "is_dump s v pd \<Longrightarrow> is_dump s v pd' \<Longrightarrow> pd = pd'"
  by (auto simp: is_dump_def split: hval.splits option.splits obj.splits
        dest: is_slots_unique)

lemma is_dump_list_unique:
  "list_all2 (is_dump s) items rs \<Longrightarrow> list_all2 (is_dump s) items rs' \<Longrightarrow> rs = rs'"
proof (induction items arbitrary: rs rs')
  case Nil
  then show ?case by simp
next
  case (Cons v items)
  then show ?case
    by (auto simp: list_all2_Cons1 dest: is_dump_unique)
qed

lemma is_result_unique:
  assumes "is_result r res" and "is_result r res'"
  shows "res = res'"
proof (cases "snd r")
  case (Inl e)
  with assms show ?thesis
    by (cases res; cases res') (simp_all add: is_result_def)
next
  case (Inr l)
  with assms obtain rs rs' where res: "res = Inr rs" and res': "res' = Inr rs'"
    by (cases res; cases res') (simp_all add: is_result_def)
  from assms Inr res res' obtain items where "list_all2 (is_dump (fst r)) items rs"
      and "list_all2 (is_dump (fst r)) items rs'"
    by (auto simp: is_result_def is_dumps_def split: option.splits obj.splits)
  then have "rs = rs'" by (rule is_dump_list_unique)
  with res res' show ?thesis by simp
qed

section \<open>The claims\<close>

subsection \<open>C1: promotion of the tool metadata\<close>

text \<open>
  Claim C1 is about every Tool message whose dump (the non-null attributes without
  \<open>encoding\<close>) holds a metadata dict with a \<open>tool_call_id\<close> key, at any index
  \<open>i\<close> of any chat history. What the source does with it depends on the key
  \<open>function_name\<close>, which the claim does not ask for. When the metadata has that key
  too, every list the source returns has one record per message, and the record at index
  \<open>i\<close> has \<open>tool_call_id\<close> and \<open>name\<close> set from the metadata, no key
  \<open>metadata\<close>, and every other key as in the dump; and the source does return a list
  unless another message of the history makes it raise. When the metadata lacks
  \<open>function_name\<close>, the source returns no record at all: the call raises
  \<^verbatim>\<open>KeyError\<close>, wherever the message stands in the history.
\<close>

theorem tool_metadata_promotion:
  assumes "i < length (messages h)"
    and "role (messages h ! i) = TOOL"
    and "map_of (model_dump True [''encoding''] (messages h ! i)) ''metadata'' = Some (VDict md)"
    and "map_of md ''tool_call_id'' = Some tid"
  shows "case map_of md ''function_name'' of
           None \<Rightarrow>
             prepare_chat_history_for_request self h = Inl (KeyError ''function_name'')
         | Some fname \<Rightarrow>
             (\<forall>rs. prepare_chat_history_for_request self h = Inr rs \<longrightarrow>
                length rs = length (messages h)
                \<and> map_of (rs ! i) ''tool_call_id'' = Some tid
                \<and> map_of (rs ! i) ''name'' = Some fname
                \<and> map_of (rs ! i) ''metadata'' = None
                \<and> (\<forall>k. k \<notin> {''tool_call_id'', ''name'', ''metadata''} \<longrightarrow>
                       map_of (rs ! i) k
                         = map_of (model_dump True [''encoding''] (messages h ! i)) k))
             \<and> ((\<forall>j < length (messages h). j \<noteq> i \<longrightarrow>
                    \<not> missing_function_name (messages h ! j)) \<longrightarrow>
                  (\<exists>rs. prepare_chat_history_for_request self h = Inr rs))"
proof -
  let ?m = "messages h ! i"
  let ?dump = "model_dump True [''encoding''] ?m"
  from assms(3) have md: "metadata ?m = Some md"
    by (cases "metadata ?m") (simp_all add: model_dump_metadata)
  show ?thesis
  proof (cases "map_of md ''function_name''")
    case None
    with assms(2,4) md have "missing_function_name ?m"
      by (simp add: missing_function_name_def contains_def)
    moreover from assms(1) have "?m \<in> set (messages h)" by simp
    ultimately have "prepare_chat_history_for_request self h = Inl (KeyError ''function_name'')"
      by (rule prepare_raises [rotated])
    with None show ?thesis by simp
  next
    case (Some fname)
    let ?d = "pop (setitem (setitem ?dump ''tool_call_id'' tid) ''name'' fname) ''metadata''"
    have pm: "prepare_message ?m = Inr ?d"
      by (simp add: prepare_message_tool [OF assms(2)] md assms(4) Some)
    have ok: "\<not> missing_function_name ?m"
      using md Some by (simp add: missing_function_name_def contains_def)
    have a: "\<forall>rs. prepare_chat_history_for_request self h = Inr rs \<longrightarrow>
                length rs = length (messages h)
                \<and> map_of (rs ! i) ''tool_call_id'' = Some tid
                \<and> map_of (rs ! i) ''name'' = Some fname
                \<and> map_of (rs ! i) ''metadata'' = None
                \<and> (\<forall>k. k \<notin> {''tool_call_id'', ''name'', ''metadata''} \<longrightarrow>
                       map_of (rs ! i) k = map_of ?dump k)"
    proof (intro allI impI)
      fix rs assume r: "prepare_chat_history_for_request self h = Inr rs"
      from prepare_nth [OF r assms(1)] pm have d: "rs ! i = ?d" by simp
      show "length rs = length (messages h)
                \<and> map_of (rs ! i) ''tool_call_id'' = Some tid
                \<and> map_of (rs ! i) ''name'' = Some fname
                \<and> map_of (rs ! i) ''metadata'' = None
                \<and> (\<forall>k. k \<notin> {''tool_call_id'', ''name'', ''metadata''} \<longrightarrow>
                       map_of (rs ! i) k = map_of ?dump k)"
        unfolding d using prepare_length [OF r]
        by (simp add: map_of_pop map_of_setitem)
    qed
    have b: "(\<forall>j < length (messages h). j \<noteq> i \<longrightarrow>
                    \<not> missing_function_name (messages h ! j)) \<longrightarrow>
                  (\<exists>rs. prepare_chat_history_for_request self h = Inr rs)"
      using prepare_returns_but_one [OF assms(1) ok] by blast
    from a b Some show ?thesis by simp
  qed
qed

text \<open>
  A question followed by the spec's own example, a Tool message with metadata
  \<open>{tool_call_id: "abc", function_name: "f"}\<close>: the second record is the promoted one.
  The same history with metadata \<open>{tool_call_id: "abc"}\<close>: the call raises.
\<close>

theorem tool_metadata_promotion_witness:
  "(\<exists>rs. prepare_chat_history_for_request a_client question_and_answer = Inr rs
        \<and> length rs = 2
        \<and> map_of (rs ! 1) ''tool_call_id'' = Some (VStr ''abc'')
        \<and> map_of (rs ! 1) ''name'' = Some (VStr ''f'')
        \<and> map_of (rs ! 1) ''metadata'' = None
        \<and> map_of (rs ! 1) ''content'' = Some (VStr ''ok''))
   \<and> prepare_chat_history_for_request a_client question_and_bad_answer
       = Inl (KeyError ''function_name'')"
proof -
  let ?good = "mk_message TOOL (Some ''ok'')
                 (Some [(''tool_call_id'', VStr ''abc''), (''function_name'', VStr ''f'')])"
  let ?bad = "mk_message TOOL (Some ''ok'') (Some [(''tool_call_id'', VStr ''abc'')])"
  have l: "length (messages question_and_answer) = 2"
    by (simp add: question_and_answer_def)
  have i: "1 < length (messages question_and_answer)"
    by (simp add: question_and_answer_def)
  have m: "messages question_and_answer ! 1 = ?good"
    by (simp add: question_and_answer_def)
  have r: "role (messages question_and_answer ! 1) = TOOL"
    unfolding m by (simp add: mk_message_def)
  have d: "map_of (model_dump True [''encoding''] (messages question_and_answer ! 1)) ''metadata''
             = Some (VDict [(''tool_call_id'', VStr ''abc''), (''function_name'', VStr ''f'')])"
    unfolding m by (simp add: model_dump_metadata mk_message_def)
  have c: "map_of (model_dump True [''encoding''] (messages question_and_answer ! 1)) ''content''
             = Some (VStr ''ok'')"
    unfolding m by (simp add: map_of_model_dump map_of_model_fields_content mk_message_def)
  have t: "map_of [(''tool_call_id'', VStr ''abc''), (''function_name'', VStr ''f'')]
             ''tool_call_id'' = Some (VStr ''abc'')"
    by simp
  have others: "\<forall>j < length (messages question_and_answer). j \<noteq> 1 \<longrightarrow>
                  \<not> missing_function_name (messages question_and_answer ! j)"
    by (simp add: question_and_answer_def All_less_Suc missing_function_name_def mk_message_def)
  from tool_metadata_promotion [OF i r d t, of a_client]
  have A: "\<forall>rs. prepare_chat_history_for_request a_client question_and_answer = Inr rs \<longrightarrow>
                length rs = length (messages question_and_answer)
                \<and> map_of (rs ! 1) ''tool_call_id'' = Some (VStr ''abc'')
                \<and> map_of (rs ! 1) ''name'' = Some (VStr ''f'')
                \<and> map_of (rs ! 1) ''metadata'' = None
                \<and> (\<forall>k. k \<notin> {''tool_call_id'', ''name'', ''metadata''} \<longrightarrow>
                       map_of (rs ! 1) k
                         = map_of (model_dump True [''encoding'']
                                     (messages question_and_answer ! 1)) k)"
    and B: "(\<forall>j < length (messages question_and_answer). j \<noteq> 1 \<longrightarrow>
                    \<not> missing_function_name (messages question_and_answer ! j)) \<longrightarrow>
                  (\<exists>rs. prepare_chat_history_for_request a_client question_and_answer = Inr rs)"
    by simp_all
  from B others obtain rs
    where rs: "prepare_chat_history_for_request a_client question_and_answer = Inr rs"
    by blast
  from A rs have p: "length rs = length (messages question_and_answer)"
      "map_of (rs ! 1) ''tool_call_id'' = Some (VStr ''abc'')"
      "map_of (rs ! 1) ''name'' = Some (VStr ''f'')"
      "map_of (rs ! 1) ''metadata'' = None"
      "\<forall>k. k \<notin> {''tool_call_id'', ''name'', ''metadata''} \<longrightarrow>
            map_of (rs ! 1) k
              = map_of (model_dump True [''encoding''] (messages question_and_answer ! 1)) k"
    by blast+
  from p(5) have "map_of (rs ! 1) ''content''
      = map_of (model_dump True [''encoding''] (messages question_and_answer ! 1)) ''content''"
    by simp
  with c have pc: "map_of (rs ! 1) ''content'' = Some (VStr ''ok'')" by simp
  have good: "\<exists>rs. prepare_chat_history_for_request a_client question_and_answer = Inr rs
        \<and> length rs = 2
        \<and> map_of (rs ! 1) ''tool_call_id'' = Some (VStr ''abc'')
        \<and> map_of (rs ! 1) ''name'' = Some (VStr ''f'')
        \<and> map_of (rs ! 1) ''metadata'' = None
        \<and> map_of (rs ! 1) ''content'' = Some (VStr ''ok'')"
    using rs p(1-4) pc l by (intro exI [of _ rs]) simp
  have i': "1 < length (messages question_and_bad_answer)"
    by (simp add: question_and_bad_answer_def)
  have m': "messages question_and_bad_answer ! 1 = ?bad"
    by (simp add: question_and_bad_answer_def)
  have r': "role (messages question_and_bad_answer ! 1) = TOOL"
    unfolding m' by (simp add: mk_message_def)
  have d': "map_of (model_dump True [''encoding''] (messages question_and_bad_answer ! 1))
              ''metadata'' = Some (VDict [(''tool_call_id'', VStr ''abc'')])"
    unfolding m' by (simp add: model_dump_metadata mk_message_def)
  have t': "map_of [(''tool_call_id'', VStr ''abc'')] ''tool_call_id'' = Some (VStr ''abc'')"
    by simp
  from tool_metadata_promotion [OF i' r' d' t', of a_client]
  have bad: "prepare_chat_history_for_request a_client question_and_bad_answer
       = Inl (KeyError ''function_name'')"
    by simp
  from good bad show ?thesis by (rule conjI)
qed

subsection \<open>C2: records of System, User and Assistant messages\<close>

text \<open>
  Claim C2. For every message whose role is not Tool, at any index \<open>i\<close> of any chat
  history: every list the source returns has one record per message, and the record at
  index \<open>i\<close> is the dump of that message without the attributes \<open>metadata\<close>,
  \<open>encoding\<close>, \<open>ai_model_id\<close>, \<open>inner_content\<close> and \<open>choice_index\<close>. It
  has none of these five keys, whatever the values of the attributes; it has no key for
  any attribute whose value is \<^verbatim>\<open>None\<close>, and holds no \<^verbatim>\<open>None\<close> value at all; and
  it keeps the two remaining attributes: \<open>role\<close> always, \<open>content\<close> when it is
  set. The source returns a list unless another message of the history makes it raise.
\<close>

theorem non_tool_record:
  assumes "i < length (messages h)" and "role (messages h ! i) \<noteq> TOOL"
  shows "(\<forall>rs. prepare_chat_history_for_request self h = Inr rs \<longrightarrow>
            length rs = length (messages h)
            \<and> rs ! i = model_dump True
                         [''metadata'', ''encoding'', ''ai_model_id'', ''inner_content'',
                          ''choice_index''] (messages h ! i)
            \<and> (\<forall>k \<in> {''metadata'', ''encoding'', ''ai_model_id'', ''inner_content'',
                        ''choice_index''}. map_of (rs ! i) k = None)
            \<and> (\<forall>k. map_of (model_fields (messages h ! i)) k = Some VNone \<longrightarrow>
                   map_of (rs ! i) k = None)
            \<and> (\<forall>k v. map_of (rs ! i) k = Some v \<longrightarrow> v \<noteq> VNone)
            \<and> map_of (rs ! i) ''role'' = Some (VRole (role (messages h ! i)))
            \<and> map_of (rs ! i) ''content'' = map_option VStr (content (messages h ! i)))
       \<and> ((\<forall>j < length (messages h). j \<noteq> i \<longrightarrow> \<not> missing_function_name (messages h ! j)) \<longrightarrow>
            (\<exists>rs. prepare_chat_history_for_request self h = Inr rs))"
proof (intro conjI allI impI)
  let ?m = "messages h ! i"
  let ?d = "model_dump True
            [''metadata'', ''encoding'', ''ai_model_id'', ''inner_content'', ''choice_index''] ?m"
  have pm: "prepare_message ?m = Inr ?d"
    by (rule prepare_message_other [OF assms(2)])
  fix rs assume r: "prepare_chat_history_for_request self h = Inr rs"
  from prepare_nth [OF r assms(1)] pm have d: "rs ! i = ?d" by simp
  show "length rs = length (messages h)" by (rule prepare_length [OF r])
  show "rs ! i = ?d" by (rule d)
  show "\<forall>k \<in> {''metadata'', ''encoding'', ''ai_model_id'', ''inner_content'',
               ''choice_index''}. map_of (rs ! i) k = None"
    unfolding d by (simp add: map_of_model_dump split: option.splits)
  show "map_of (rs ! i) ''role'' = Some (VRole (role ?m))"
    unfolding d by (simp add: map_of_model_dump map_of_model_fields_role)
  show "map_of (rs ! i) ''content'' = map_option VStr (content ?m)"
    unfolding d by (cases "content ?m") (simp_all add: map_of_model_dump map_of_model_fields_content)
  fix k
  show "map_of (rs ! i) k = None" if "map_of (model_fields ?m) k = Some VNone"
    unfolding d using that by (simp add: map_of_model_dump)
  fix v
  show "v \<noteq> VNone" if "map_of (rs ! i) k = Some v"
    using that unfolding d by (auto simp: map_of_model_dump split: option.splits if_splits)
next
  assume "\<forall>j < length (messages h). j \<noteq> i \<longrightarrow> \<not> missing_function_name (messages h ! j)"
  moreover from assms(2) have "\<not> missing_function_name (messages h ! i)"
    by (simp add: missing_function_name_def)
  ultimately show "\<exists>rs. prepare_chat_history_for_request self h = Inr rs"
    using prepare_returns_but_one [OF assms(1)] by blast
qed

text \<open>
  A System message followed by a User message with every excluded attribute set and no
  content: the second record holds the role alone.
\<close>

theorem non_tool_record_witness:
  "\<exists>rs. prepare_chat_history_for_request a_client system_then_user = Inr rs
      \<and> length rs = 2
      \<and> rs ! 1 = [(''role'', VRole USER)]
      \<and> map_of (rs ! 1) ''metadata'' = None
      \<and> map_of (rs ! 1) ''encoding'' = None
      \<and> map_of (rs ! 1) ''ai_model_id'' = None
      \<and> map_of (rs ! 1) ''inner_content'' = None
      \<and> map_of (rs ! 1) ''choice_index'' = None
      \<and> map_of (rs ! 1) ''content'' = None"
proof -
  have l: "length (messages system_then_user) = 2"
    by (simp add: system_then_user_def)
  have i: "1 < length (messages system_then_user)"
    by (simp add: system_then_user_def)
  have m: "messages system_then_user ! 1 = user_message_all_set"
    by (simp add: system_then_user_def)
  have r: "role (messages system_then_user ! 1) \<noteq> TOOL"
    unfolding m by (simp add: user_message_all_set_def)
  have others: "\<forall>j < length (messages system_then_user). j \<noteq> 1 \<longrightarrow>
                  \<not> missing_function_name (messages system_then_user ! j)"
    by (simp add: system_then_user_def All_less_Suc missing_function_name_def mk_message_def)
  have dump: "model_dump True
                [''metadata'', ''encoding'', ''ai_model_id'', ''inner_content'', ''choice_index'']
                (messages system_then_user ! 1) = [(''role'', VRole USER)]"
    unfolding m by (simp add: model_dump_def model_fields_def user_message_all_set_def)
  note th = non_tool_record [OF i r, of a_client]
  from th others obtain rs
    where rs: "prepare_chat_history_for_request a_client system_then_user = Inr rs"
    by blast
  from th rs have p: "length rs = length (messages system_then_user)"
      "rs ! 1 = model_dump True
                  [''metadata'', ''encoding'', ''ai_model_id'', ''inner_content'',
                   ''choice_index''] (messages system_then_user ! 1)"
    by blast+
  from p(2) dump have d: "rs ! 1 = [(''role'', VRole USER)]" by simp
  show ?thesis
    using rs p(1) l d by (intro exI [of _ rs]) simp
qed

subsection \<open>C3: one record per message, in order\<close>

text \<open>
  Claim C3 speaks of every chat history. For every history with no Tool message whose
  metadata has \<open>tool_call_id\<close> and lacks \<open>function_name\<close>, the source returns
  exactly one record per message, and the record at index \<open>i\<close> is the record the
  source returns for the message at index \<open>i\<close> alone. On every other history the
  source raises \<^verbatim>\<open>KeyError\<close> and returns no list. The empty history yields the empty
  list and no error.
\<close>

theorem order_preservation:
  "(if \<exists>m \<in> set (messages h). missing_function_name m
    then prepare_chat_history_for_request self h = Inl (KeyError ''function_name'')
    else \<exists>rs. prepare_chat_history_for_request self h = Inr rs
           \<and> length rs = length (messages h)
           \<and> (\<forall>i < length (messages h).
                  prepare_chat_history_for_request self \<lparr>messages = [messages h ! i]\<rparr>
                    = Inr [rs ! i]))
   \<and> prepare_chat_history_for_request self \<lparr>messages = []\<rparr> = Inr []"
proof (intro conjI)
  show "prepare_chat_history_for_request self \<lparr>messages = []\<rparr> = Inr []"
    by (simp add: prepare_chat_history_for_request_def)
  show "if \<exists>m \<in> set (messages h). missing_function_name m
    then prepare_chat_history_for_request self h = Inl (KeyError ''function_name'')
    else \<exists>rs. prepare_chat_history_for_request self h = Inr rs
           \<and> length rs = length (messages h)
           \<and> (\<forall>i < length (messages h).
                  prepare_chat_history_for_request self \<lparr>messages = [messages h ! i]\<rparr>
                    = Inr [rs ! i])"
  proof (cases "\<exists>m \<in> set (messages h). missing_function_name m")
    case True
    then obtain m where "m \<in> set (messages h)" and "missing_function_name m" by blast
    then have "prepare_chat_history_for_request self h = Inl (KeyError ''function_name'')"
      by (rule prepare_raises)
    with True show ?thesis by simp
  next
    case False
    then have "\<forall>m \<in> set (messages h). \<not> missing_function_name m" by simp
    from prepare_returns [OF this] obtain rs
      where r: "prepare_chat_history_for_request self h = Inr rs" by blast
    have "\<forall>i < length (messages h).
            prepare_chat_history_for_request self \<lparr>messages = [messages h ! i]\<rparr> = Inr [rs ! i]"
      by (simp add: prepare_singleton prepare_nth [OF r])
    with r prepare_length [OF r] False show ?thesis by auto
  qed
qed

text \<open>
  The history of a question and the answer of a tool yields two records, the first for
  the question and the second for the answer. With the key \<open>function_name\<close> missing
  from the answer's metadata the call raises.
\<close>

theorem order_preservation_witness:
  "(\<exists>rs. prepare_chat_history_for_request a_client question_and_answer = Inr rs
        \<and> length rs = 2
        \<and> prepare_chat_history_for_request a_client
            \<lparr>messages = [mk_message USER (Some ''run f'') None]\<rparr> = Inr [rs ! 0]
        \<and> prepare_chat_history_for_request a_client
            \<lparr>messages = [mk_message TOOL (Some ''ok'')
               (Some [(''tool_call_id'', VStr ''abc''), (''function_name'', VStr ''f'')])]\<rparr>
            = Inr [rs ! 1])
   \<and> prepare_chat_history_for_request a_client question_and_bad_answer
       = Inl (KeyError ''function_name'')"
proof -
  have ok: "\<not> (\<exists>m \<in> set (messages question_and_answer). missing_function_name m)"
    by (simp add: question_and_answer_def missing_function_name_def mk_message_def contains_def)
  have bad: "\<exists>m \<in> set (messages question_and_bad_answer). missing_function_name m"
    by (simp add: question_and_bad_answer_def missing_function_name_def mk_message_def
          contains_def)
  have l: "length (messages question_and_answer) = 2"
    by (simp add: question_and_answer_def)
  have m0: "messages question_and_answer ! 0 = mk_message USER (Some ''run f'') None"
    by (simp add: question_and_answer_def)
  have m1: "messages question_and_answer ! 1
      = mk_message TOOL (Some ''ok'')
          (Some [(''tool_call_id'', VStr ''abc''), (''function_name'', VStr ''f'')])"
    by (simp add: question_and_answer_def)
  from order_preservation [of question_and_answer a_client] ok
  obtain rs where rs: "prepare_chat_history_for_request a_client question_and_answer = Inr rs"
      and len: "length rs = length (messages question_and_answer)"
      and nth: "\<forall>i < length (messages question_and_answer).
                  prepare_chat_history_for_request a_client
                    \<lparr>messages = [messages question_and_answer ! i]\<rparr> = Inr [rs ! i]"
    by auto
  from nth l have
    "prepare_chat_history_for_request a_client \<lparr>messages = [messages question_and_answer ! 0]\<rparr>
       = Inr [rs ! 0]"
    "prepare_chat_history_for_request a_client \<lparr>messages = [messages question_and_answer ! 1]\<rparr>
       = Inr [rs ! 1]"
    by simp_all
  then have n: "prepare_chat_history_for_request a_client
            \<lparr>messages = [mk_message USER (Some ''run f'') None]\<rparr> = Inr [rs ! 0]"
    "prepare_chat_history_for_request a_client
            \<lparr>messages = [mk_message TOOL (Some ''ok'')
               (Some [(''tool_call_id'', VStr ''abc''), (''function_name'', VStr ''f'')])]\<rparr>
            = Inr [rs ! 1]"
    unfolding m0 m1 by simp_all
  have good: "\<exists>rs. prepare_chat_history_for_request a_client question_and_answer = Inr rs
        \<and> length rs = 2
        \<and> prepare_chat_history_for_request a_client
            \<lparr>messages = [mk_message USER (Some ''run f'') None]\<rparr> = Inr [rs ! 0]
        \<and> prepare_chat_history_for_request a_client
            \<lparr>messages = [mk_message TOOL (Some ''ok'')
               (Some [(''tool_call_id'', VStr ''abc''), (''function_name'', VStr ''f'')])]\<rparr>
            = Inr [rs ! 1]"
    using rs len l n by (intro exI [of _ rs]) simp
  from order_preservation [of question_and_bad_answer a_client] bad
  have raises: "prepare_chat_history_for_request a_client question_and_bad_answer
       = Inl (KeyError ''function_name'')"
    by simp
  from good raises show ?thesis by (rule conjI)
qed

subsection \<open>C4: the fallback of the Tool branch\<close>

text \<open>
  Claim C4. For every Tool message whose metadata is absent or has no \<open>tool_call_id\<close>
  key, at any index \<open>i\<close> of any chat history: every list the source returns has one
  record per message, and the record at index \<open>i\<close> is the dump of that message (its
  non-null attributes, without \<open>encoding\<close> only); the dump holds the metadata exactly
  when the message has one, and then unchanged. The message does not make the source
  raise: the source returns a list unless another message of the history makes it raise,
  and on the message alone it returns the list of that one dump.
\<close>

theorem tool_metadata_fallback:
  assumes "i < length (messages h)"
    and "role (messages h ! i) = TOOL"
    and "metadata (messages h ! i) = None
         \<or> (\<exists>md. metadata (messages h ! i) = Some md \<and> \<not> contains ''tool_call_id'' md)"
  shows "(\<forall>rs. prepare_chat_history_for_request self h = Inr rs \<longrightarrow>
            length rs = length (messages h)
            \<and> rs ! i = model_dump True [''encoding''] (messages h ! i)
            \<and> map_of (rs ! i) ''metadata'' = map_option VDict (metadata (messages h ! i)))
       \<and> ((\<forall>j < length (messages h). j \<noteq> i \<longrightarrow> \<not> missing_function_name (messages h ! j)) \<longrightarrow>
            (\<exists>rs. prepare_chat_history_for_request self h = Inr rs))
       \<and> prepare_chat_history_for_request self \<lparr>messages = [messages h ! i]\<rparr>
           = Inr [model_dump True [''encoding''] (messages h ! i)]"
proof (intro conjI allI impI)
  let ?m = "messages h ! i"
  have pm: "prepare_message ?m = Inr (model_dump True [''encoding''] ?m)"
    using assms(3)
    by (auto simp: prepare_message_tool [OF assms(2)] contains_def Let_def)
  show "prepare_chat_history_for_request self \<lparr>messages = [?m]\<rparr>
           = Inr [model_dump True [''encoding''] ?m]"
    by (simp add: prepare_singleton pm)
  fix rs assume r: "prepare_chat_history_for_request self h = Inr rs"
  from prepare_nth [OF r assms(1)] pm have d: "rs ! i = model_dump True [''encoding''] ?m"
    by simp
  show "length rs = length (messages h)" by (rule prepare_length [OF r])
  show "rs ! i = model_dump True [''encoding''] ?m" by (rule d)
  show "map_of (rs ! i) ''metadata'' = map_option VDict (metadata ?m)"
    unfolding d by (rule model_dump_metadata)
next
  assume "\<forall>j < length (messages h). j \<noteq> i \<longrightarrow> \<not> missing_function_name (messages h ! j)"
  moreover from assms(3) have "\<not> missing_function_name (messages h ! i)"
    by (auto simp: missing_function_name_def)
  ultimately show "\<exists>rs. prepare_chat_history_for_request self h = Inr rs"
    using prepare_returns_but_one [OF assms(1)] by blast
qed

text \<open>
  A question followed by two Tool messages: one with no metadata, one whose metadata has
  a \<open>function_name\<close> key only.
\<close>

theorem tool_metadata_fallback_witness:
  "\<exists>rs. prepare_chat_history_for_request a_client tools_without_id = Inr rs
      \<and> length rs = 3
      \<and> rs ! 1 = [(''role'', VRole TOOL), (''content'', VStr ''42'')]
      \<and> rs ! 2 = [(''role'', VRole TOOL), (''content'', VStr ''42''),
                  (''metadata'', VDict [(''function_name'', VStr ''add'')])]"
proof -
  have l: "length (messages tools_without_id) = 3"
    by (simp add: tools_without_id_def)
  have i1: "1 < length (messages tools_without_id)" and i2: "2 < length (messages tools_without_id)"
    by (simp_all add: tools_without_id_def)
  have m1: "messages tools_without_id ! 1 = mk_message TOOL (Some ''42'') None"
    by (simp add: tools_without_id_def)
  have m2: "messages tools_without_id ! 2
      = mk_message TOOL (Some ''42'') (Some [(''function_name'', VStr ''add'')])"
    by (simp add: tools_without_id_def)
  have r1: "role (messages tools_without_id ! 1) = TOOL"
    unfolding m1 by (simp add: mk_message_def)
  have r2: "role (messages tools_without_id ! 2) = TOOL"
    unfolding m2 by (simp add: mk_message_def)
  have c1: "metadata (messages tools_without_id ! 1) = None
         \<or> (\<exists>md. metadata (messages tools_without_id ! 1) = Some md
                \<and> \<not> contains ''tool_call_id'' md)"
    unfolding m1 by (simp add: mk_message_def)
  have c2: "metadata (messages tools_without_id ! 2) = None
         \<or> (\<exists>md. metadata (messages tools_without_id ! 2) = Some md
                \<and> \<not> contains ''tool_call_id'' md)"
    unfolding m2 by (simp add: mk_message_def contains_def)
  have others: "\<forall>j < length (messages tools_without_id). j \<noteq> 1 \<longrightarrow>
                  \<not> missing_function_name (messages tools_without_id ! j)"
    by (simp add: tools_without_id_def All_less_Suc missing_function_name_def mk_message_def
          contains_def)
  have d1: "model_dump True [''encoding''] (messages tools_without_id ! 1)
      = [(''role'', VRole TOOL), (''content'', VStr ''42'')]"
    unfolding m1 by (simp add: model_dump_def model_fields_def mk_message_def)
  have d2: "model_dump True [''encoding''] (messages tools_without_id ! 2)
      = [(''role'', VRole TOOL), (''content'', VStr ''42''),
         (''metadata'', VDict [(''function_name'', VStr ''add'')])]"
    unfolding m2 by (simp add: model_dump_def model_fields_def mk_message_def)
  note th1 = tool_metadata_fallback [OF i1 r1 c1, of a_client]
  note th2 = tool_metadata_fallback [OF i2 r2 c2, of a_client]
  from th1 others obtain rs
    where rs: "prepare_chat_history_for_request a_client tools_without_id = Inr rs"
    by blast
  from th1 rs have p1: "length rs = length (messages tools_without_id)"
      "rs ! 1 = model_dump True [''encoding''] (messages tools_without_id ! 1)"
    by blast+
  from th2 rs have p2: "rs ! 2 = model_dump True [''encoding''] (messages tools_without_id ! 2)"
    by blast
  from p1(2) d1 have e1: "rs ! 1 = [(''role'', VRole TOOL), (''content'', VStr ''42'')]"
    by simp
  from p2 d2 have e2: "rs ! 2 = [(''role'', VRole TOOL), (''content'', VStr ''42''),
                  (''metadata'', VDict [(''function_name'', VStr ''add'')])]"
    by simp
  show ?thesis
    using rs p1(1) l e1 e2 by (intro exI [of _ rs]) simp
qed

subsection \<open>C5: metadata with a missing key\<close>

text \<open>
  Claim C5 says that no metadata shape makes the source raise. The source checks for the
  key \<open>tool_call_id\<close> before it reads it (line 86) but reads \<open>function_name\<close>
  unchecked (line 88): on a Tool message with metadata \<open>{tool_call_id: "call_1"}\<close> it
  raises \<^verbatim>\<open>KeyError\<close>.
\<close>

theorem missing_function_name_raises:
  "prepare_chat_history_for_request a_client
     \<lparr>messages = [mk_message TOOL (Some ''42'') (Some [(''tool_call_id'', VStr ''call_1'')])]\<rparr>
   = Inl (KeyError ''function_name'')"
  by (simp add: prepare_singleton prepare_message_tool mk_message_def)

subsection \<open>C6: the Tool scenario\<close>

text \<open>
  Claim C6, as amended. For the Tool message with content \<open>"42"\<close> and metadata
  \<open>{tool_call_id: "call_1", function_name: "add"}\<close>, every other optional attribute
  absent, the source returns the record
  \<open>{role: Tool, content: "42", tool_call_id: "call_1", name: "add"}\<close>: four keys.
\<close>

theorem tool_scenario_record:
  "prepare_chat_history_for_request self
     \<lparr>messages = [mk_message TOOL (Some ''42'')
        (Some [(''tool_call_id'', VStr ''call_1''), (''function_name'', VStr ''add'')])]\<rparr>
   = Inr [[(''role'', VRole TOOL), (''content'', VStr ''42''),
           (''tool_call_id'', VStr ''call_1''), (''name'', VStr ''add'')]]"
  by (simp add: prepare_singleton prepare_message_tool mk_message_def model_dump_def
        model_fields_def setitem_def pop_def)

text \<open>
  The claim as written gives the record three keys. The record returned has the key
  \<open>role\<close> as well, which the three-key record lacks.
\<close>

theorem tool_scenario_counterexample:
  "prepare_chat_history_for_request a_client
     \<lparr>messages = [mk_message TOOL (Some ''42'')
        (Some [(''tool_call_id'', VStr ''call_1''), (''function_name'', VStr ''add'')])]\<rparr>
   = Inr [[(''role'', VRole TOOL), (''content'', VStr ''42''),
           (''tool_call_id'', VStr ''call_1''), (''name'', VStr ''add'')]]
   \<and> map_of [(''role'', VRole TOOL), (''content'', VStr ''42''),
           (''tool_call_id'', VStr ''call_1''), (''name'', VStr ''add'')] ''role''
       = Some (VRole TOOL)
   \<and> map_of [(''content'', VStr ''42''), (''tool_call_id'', VStr ''call_1''),
             (''name'', VStr ''add'')] ''role'' = None"
  by (simp add: prepare_singleton prepare_message_tool mk_message_def model_dump_def
        model_fields_def setitem_def pop_def)

subsection \<open>C7: determinism\<close>

text \<open>
  Claim C7. Two calls of the source, one after the other on the same chat history object,
  return equal lists of records. The second call runs on the store the first call has
  left, with the list and the dumps of the first call in it. For every store that holds a
  chat history at the address \<open>chat_history\<close>, whatever the clients of the two calls and
  the way \<^verbatim>\<open>model_dump\<close> treats the metadata dict in each of them: after the second call,
  the list returned by the first call and the list returned by the second hold the same
  records, which are the records the history determines; and when the first call raises,
  the second raises the same exception. The two results hold nothing else: whatever the
  result of the first call and the result of the second hold, it is equal.
\<close>

theorem prepare_deterministic:
  assumes "is_history s chat_history h"
  shows "is_result
           (fst (h_prepare_chat_history_for_request share2
                   (fst (h_prepare_chat_history_for_request share1 s self1 chat_history))
                   self2 chat_history),
            snd (h_prepare_chat_history_for_request share1 s self1 chat_history))
           (prepare_chat_history_for_request c h)
       \<and> is_result
           (h_prepare_chat_history_for_request share2
              (fst (h_prepare_chat_history_for_request share1 s self1 chat_history))
              self2 chat_history)
           (prepare_chat_history_for_request c h)
       \<and> (\<forall>res1 res2.
             is_result
               (fst (h_prepare_chat_history_for_request share2
                       (fst (h_prepare_chat_history_for_request share1 s self1 chat_history))
                       self2 chat_history),
                snd (h_prepare_chat_history_for_request share1 s self1 chat_history))
               res1 \<longrightarrow>
             is_result
               (h_prepare_chat_history_for_request share2
                  (fst (h_prepare_chat_history_for_request share1 s self1 chat_history))
                  self2 chat_history)
               res2 \<longrightarrow>
             res1 = res2)"
proof -
  let ?r1 = "h_prepare_chat_history_for_request share1 s self1 chat_history"
  let ?r2 = "h_prepare_chat_history_for_request share2 (fst ?r1) self2 chat_history"
  have k1: "kept s (fst ?r1)" by (rule h_prepare_kept)
  have k2: "kept (fst ?r1) (fst ?r2)" by (rule h_prepare_kept)
  have "is_result (fst ?r1, snd ?r1) (prepare_chat_history_for_request c h)"
    using h_prepare_refines [OF assms, of share1 self1 c] by simp
  then have a: "is_result (fst ?r2, snd ?r1) (prepare_chat_history_for_request c h)"
    by (rule is_result_kept [OF k2])
  have b: "is_result ?r2 (prepare_chat_history_for_request c h)"
    by (rule h_prepare_refines [OF is_history_kept [OF k1 assms]])
  have u: "res1 = res2" if "is_result (fst ?r2, snd ?r1) res1" and "is_result ?r2 res2"
    for res1 res2
    using is_result_unique [OF that(1) a] is_result_unique [OF that(2) b] by simp
  from a b u show ?thesis by blast
qed

text \<open>
  On the example store, with a shared metadata dict in the first call and a copied one in
  the second: the first call returns the list at address 6, the second the list at
  address 9, and after the second call both lists hold the same two records.
\<close>

theorem prepare_deterministic_witness:
  "is_history ex_store 4 ex_history
   \<and> snd (h_prepare_chat_history_for_request True ex_store 5 4) = Inr 6
   \<and> snd (h_prepare_chat_history_for_request False
             (fst (h_prepare_chat_history_for_request True ex_store 5 4)) 5 4) = Inr 9
   \<and> is_dumps
       (fst (h_prepare_chat_history_for_request False
               (fst (h_prepare_chat_history_for_request True ex_store 5 4)) 5 4))
       6
       [[(''role'', VRole USER), (''content'', VStr ''2+2?'')],
        [(''role'', VRole TOOL), (''content'', VStr ''42''),
         (''tool_call_id'', VStr ''call_1''), (''name'', VStr ''add'')]]
   \<and> is_dumps
       (fst (h_prepare_chat_history_for_request False
               (fst (h_prepare_chat_history_for_request True ex_store 5 4)) 5 4))
       9
       [[(''role'', VRole USER), (''content'', VStr ''2+2?'')],
        [(''role'', VRole TOOL), (''content'', VStr ''42''),
         (''tool_call_id'', VStr ''call_1''), (''name'', VStr ''add'')]]"
proof -
  have run1: "h_prepare_chat_history_for_request True ex_store 5 4 = (ex_store_after, Inr 6)"
    by (simp add: ex_store_after_def ex_store_def h_prepare_chat_history_for_request_def
          then_do_def alloc_def h_getattr_def h_list_items_def lookup_def h_prepare_message_def
          h_model_dump_def h_promote_def h_promote_write_def h_contains_def h_getitem_def
          h_setitem_def h_pop_def h_append_def)
  have r2: "snd (h_prepare_chat_history_for_request False ex_store_after 5 4) = Inr 9"
    by (simp add: ex_store_after_def ex_store_def h_prepare_chat_history_for_request_def
          then_do_def alloc_def h_getattr_def h_list_items_def lookup_def h_prepare_message_def
          h_model_dump_def h_promote_def h_promote_write_def h_contains_def h_getitem_def
          h_setitem_def h_pop_def h_append_def)
  have hist: "is_history ex_store 4 ex_history"
    by (simp add: is_history_def is_message_def is_slots_def is_slot_def lookup_def
          ex_store_def ex_history_def mk_message_def model_fields_def)
  have pure: "prepare_chat_history_for_request a_client ex_history
      = Inr [[(''role'', VRole USER), (''content'', VStr ''2+2?'')],
             [(''role'', VRole TOOL), (''content'', VStr ''42''),
              (''tool_call_id'', VStr ''call_1''), (''name'', VStr ''add'')]]"
    by (simp add: prepare_chat_history_for_request_def prepare_message_tool
          prepare_message_other ex_history_def mk_message_def model_dump_def model_fields_def
          setitem_def pop_def)
  from prepare_deterministic [OF hist, of False True 5 5 a_client]
  have "is_result
          (fst (h_prepare_chat_history_for_request False
                  (fst (h_prepare_chat_history_for_request True ex_store 5 4)) 5 4),
           snd (h_prepare_chat_history_for_request True ex_store 5 4))
          (prepare_chat_history_for_request a_client ex_history)"
    and "is_result
          (h_prepare_chat_history_for_request False
             (fst (h_prepare_chat_history_for_request True ex_store 5 4)) 5 4)
          (prepare_chat_history_for_request a_client ex_history)"
    by blast+
  then show ?thesis
    by (simp add: run1 r2 pure hist is_result_def)
qed

subsection \<open>C8: the input is not mutated\<close>

text \<open>
  Claim C8. Whatever the store, the client and the chat history the source is called on,
  and whether or not a dump shares the metadata dict with its message, every object that
  existed before the call is at its address and unchanged after it: the chat history, its
  list of messages, every message and every metadata dict. This holds when the call
  returns and when it raises. All writes of the source go to objects it has allocated
  itself: the dumps and the list of the dumps.
\<close>

theorem input_not_mutated:
  "kept s (fst (h_prepare_chat_history_for_request share s self chat_history))
   \<and> (\<forall>a < length s.
         lookup (fst (h_prepare_chat_history_for_request share s self chat_history)) a
           = lookup s a)"
proof (intro conjI allI impI)
  show k: "kept s (fst (h_prepare_chat_history_for_request share s self chat_history))"
    by (rule h_prepare_kept)
  fix a assume "a < length s"
  with k show "lookup (fst (h_prepare_chat_history_for_request share s self chat_history)) a
                 = lookup s a"
    by (rule kept_lookup)
qed

text \<open>
  On the example store the call returns the list at the new address 6 and has promoted the
  tool metadata in the dump at address 8, which it reached through the shared reference to
  the metadata dict at address 0; that dict and the message at address 1 are as before.
\<close>

theorem input_not_mutated_witness:
  "(1::nat) < length ex_store
   \<and> snd (h_prepare_chat_history_for_request True ex_store 5 4) = Inr 6
   \<and> lookup (fst (h_prepare_chat_history_for_request True ex_store 5 4)) 8
       = Some (DictObj [(''role'', Imm (VRole TOOL)), (''content'', Imm (VStr ''42'')),
                        (''tool_call_id'', Imm (VStr ''call_1'')),
                        (''name'', Imm (VStr ''add''))])
   \<and> lookup (fst (h_prepare_chat_history_for_request True ex_store 5 4)) 0
       = Some (DictObj [(''tool_call_id'', Imm (VStr ''call_1'')),
                        (''function_name'', Imm (VStr ''add''))])
   \<and> lookup (fst (h_prepare_chat_history_for_request True ex_store 5 4)) 1
       = Some (InstanceObj [(''role'', Imm (VRole TOOL)), (''content'', Imm (VStr ''42'')),
                   (''ai_model_id'', Imm VNone), (''inner_content'', Imm VNone),
                   (''encoding'', Imm (VStr ''utf-8'')), (''choice_index'', Imm VNone),
                   (''metadata'', Ref 0)])"
proof -
  have len: "length ex_store = 6" by (simp add: ex_store_def)
  have run: "h_prepare_chat_history_for_request True ex_store 5 4 = (ex_store_after, Inr 6)"
    by (simp add: ex_store_after_def ex_store_def h_prepare_chat_history_for_request_def
          then_do_def alloc_def h_getattr_def h_list_items_def lookup_def h_prepare_message_def
          h_model_dump_def h_promote_def h_promote_write_def h_contains_def h_getitem_def
          h_setitem_def h_pop_def h_append_def)
  then have f: "fst (h_prepare_chat_history_for_request True ex_store 5 4) = ex_store_after"
    and r: "snd (h_prepare_chat_history_for_request True ex_store 5 4) = Inr 6"
    by simp_all
  have l1: "(1::nat) < length ex_store" using len by simp
  have o0: "lookup ex_store 0
       = Some (DictObj [(''tool_call_id'', Imm (VStr ''call_1'')),
                        (''function_name'', Imm (VStr ''add''))])"
    by (simp add: ex_store_def lookup_def)
  have o1: "lookup ex_store 1
       = Some (InstanceObj [(''role'', Imm (VRole TOOL)), (''content'', Imm (VStr ''42'')),
                   (''ai_model_id'', Imm VNone), (''inner_content'', Imm VNone),
                   (''encoding'', Imm (VStr ''utf-8'')), (''choice_index'', Imm VNone),
                   (''metadata'', Ref 0)])"
    by (simp add: ex_store_def lookup_def)
  from input_not_mutated [of ex_store True 5 4] len
  have "lookup (fst (h_prepare_chat_history_for_request True ex_store 5 4)) 0
               = lookup ex_store 0"
    and "lookup (fst (h_prepare_chat_history_for_request True ex_store 5 4)) 1
               = lookup ex_store 1"
    by simp_all
  then have old0: "lookup (fst (h_prepare_chat_history_for_request True ex_store 5 4)) 0
       = Some (DictObj [(''tool_call_id'', Imm (VStr ''call_1'')),
                        (''function_name'', Imm (VStr ''add''))])"
    and old1: "lookup (fst (h_prepare_chat_history_for_request True ex_store 5 4)) 1
       = Some (InstanceObj [(''role'', Imm (VRole TOOL)), (''content'', Imm (VStr ''42'')),
                   (''ai_model_id'', Imm VNone), (''inner_content'', Imm VNone),
                   (''encoding'', Imm (VStr ''utf-8'')), (''choice_index'', Imm VNone),
                   (''metadata'', Ref 0)])"
    by (simp_all only: o0 o1)
  have "lookup ex_store_after 8
       = Some (DictObj [(''role'', Imm (VRole TOOL)), (''content'', Imm (VStr ''42'')),
                        (''tool_call_id'', Imm (VStr ''call_1'')),
                        (''name'', Imm (VStr ''add''))])"
    by (simp add: ex_store_after_def ex_store_def lookup_def)
  then have new: "lookup (fst (h_prepare_chat_history_for_request True ex_store 5 4)) 8
       = Some (DictObj [(''role'', Imm (VRole TOOL)), (''content'', Imm (VStr ''42'')),
                        (''tool_call_id'', Imm (VStr ''call_1'')),
                        (''name'', Imm (VStr ''add''))])"
    by (simp only: f)
  show ?thesis
    by (intro conjI l1 r new old0 old1)
qed

subsection \<open>C9: the default response class\<close>

text \<open>
  Claim C9. The method \<^verbatim>\<open>get_chat_message_content_class\<close> of the base class returns
  \<^verbatim>\<open>ChatMessageContent\<close> for every client.
\<close>

theorem default_content_class:
  "get_chat_message_content_class self = ChatMessageContent_class"
  by (simp add: get_chat_message_content_class_def)

subsection \<open>C10: every record has a role\<close>

text \<open>
  Claim C10. Every record the source returns has the key \<open>role\<close>, holding the role of
  the message it was produced from, for messages of every role, Tool included.
\<close>

theorem record_has_role:
  assumes "prepare_chat_history_for_request self h = Inr rs" and "i < length rs"
  shows "contains ''role'' (rs ! i)
         \<and> map_of (rs ! i) ''role'' = Some (VRole (role (messages h ! i)))"
proof -
  from assms(1) have eq: "map prepare_message (messages h) = map Inr rs"
    by (simp add: prepare_chat_history_Inr)
  then have len: "length (messages h) = length rs"
    by (metis length_map)
  with assms(2) have i: "i < length (messages h)" by simp
  from eq have "map prepare_message (messages h) ! i = map Inr rs ! i" by simp
  with i assms(2) have "prepare_message (messages h ! i) = Inr (rs ! i)" by simp
  then have "map_of (rs ! i) ''role'' = Some (VRole (role (messages h ! i)))"
    by (rule prepare_message_role)
  then show ?thesis by (simp add: contains_def)
qed

text \<open>A Tool record carries \<open>role\<close> next to \<open>tool_call_id\<close> and \<open>name\<close>.\<close>

theorem record_has_role_witness:
  "prepare_chat_history_for_request a_client
     \<lparr>messages = [mk_message TOOL (Some ''7'')
        (Some [(''tool_call_id'', VStr ''call_2''), (''function_name'', VStr ''mul'')])]\<rparr>
     = Inr [[(''role'', VRole TOOL), (''content'', VStr ''7''),
             (''tool_call_id'', VStr ''call_2''), (''name'', VStr ''mul'')]]
   \<and> (0::nat) < length [[(''role'', VRole TOOL), (''content'', VStr ''7''),
             (''tool_call_id'', VStr ''call_2''), (''name'', VStr ''mul'')]]
   \<and> contains ''role'' [(''role'', VRole TOOL), (''content'', VStr ''7''),
             (''tool_call_id'', VStr ''call_2''), (''name'', VStr ''mul'')]"
proof -
  let ?h = "\<lparr>messages = [mk_message TOOL (Some ''7'')
        (Some [(''tool_call_id'', VStr ''call_2''), (''function_name'', VStr ''mul'')])]\<rparr>"
  let ?r = "[(''role'', VRole TOOL), (''content'', VStr ''7''),
             (''tool_call_id'', VStr ''call_2''), (''name'', VStr ''mul'')]"
  have run: "prepare_chat_history_for_request a_client ?h = Inr [?r]"
    by (simp add: prepare_singleton prepare_message_tool mk_message_def model_dump_def
        model_fields_def setitem_def pop_def)
  have len: "0 < length [?r]" by simp
  from record_has_role [OF run len] have "contains ''role'' ?r" by simp
  with run len show ?thesis by blast
qed

end
